theory Spec2Isabelle
  imports Main "HOL-Library.Sublist" "HOL-Library.Multiset"
begin

section \<open>JavaScript values\<close>

text \<open>
  The values that cross the program's boundaries (request body fields, column values of a
  result row) are JavaScript primitives. \<open>===\<close> on them is equality of the datatype:
  \<open>null === null\<close>, and an integer never equals a string. Numbers are integers that a
  double represents exactly (ids, counts, sums); \<open>NaN\<close> only arises as a result of
  \<open>parseInt\<close> and is kept apart in \<open>jsnum\<close>.
\<close>

datatype val = Undefined | Null | IntV int | TextV string

datatype jsnum = NaN | Num int

text \<open>
  Decimal rendering of an integer, as \<open>String(n)\<close> and the storage driver give it. For a
  JavaScript number this is the rendering below \<open>10^21\<close> in absolute value; from there on
  \<open>String(n)\<close> uses an exponent, which is not modelled.
\<close>

fun show_nat :: "nat \<Rightarrow> string" where
  "show_nat n =
     (if n < 10 then [''0123456789'' ! n]
      else show_nat (n div 10) @ [''0123456789'' ! (n mod 10)])"

declare show_nat.simps [simp del]

definition show_int :: "int \<Rightarrow> string" where
  "show_int i = (if i < 0 then CHR ''-'' # show_nat (nat (- i)) else show_nat (nat i))"

definition toString :: "val \<Rightarrow> string" where
  "toString v =
     (case v of
        Undefined \<Rightarrow> ''undefined''
      | Null \<Rightarrow> ''null''
      | IntV i \<Rightarrow> show_int i
      | TextV s \<Rightarrow> s)"

text \<open>
  \<open>parseInt(string)\<close> with no radix: leading white space is skipped, one sign is read, a
  \<open>0x\<close>/\<open>0X\<close> prefix selects radix 16, and the longest run of digits is the value; no digit
  at all gives \<open>NaN\<close>. \<open>-0\<close> is \<open>Num 0\<close>: both are falsy. Two limits of the model: white
  space is the six ASCII characters (JavaScript also skips the Unicode space separators,
  the no-break space and the byte order mark), and the value is the exact integer, which
  is what JavaScript returns up to \<open>2^53\<close> in absolute value (beyond, it rounds to a double).
\<close>

definition isWhiteSpace :: "char \<Rightarrow> bool" where
  "isWhiteSpace c =
     (c = CHR 0x09 \<or> c = CHR 0x0A \<or> c = CHR 0x0B \<or> c = CHR 0x0C \<or> c = CHR 0x0D \<or> c = CHR 0x20)"

definition digitOf :: "nat \<Rightarrow> char \<Rightarrow> nat option" where
  "digitOf R c =
     (let n = (of_char c :: nat);
          d = (if 48 \<le> n \<and> n \<le> 57 then Some (n - 48)
               else if 97 \<le> n \<and> n \<le> 122 then Some (n - 87)
               else if 65 \<le> n \<and> n \<le> 90 then Some (n - 55)
               else None)
      in case d of None \<Rightarrow> None | Some v \<Rightarrow> if v < R then Some v else None)"

definition isDigit :: "nat \<Rightarrow> char \<Rightarrow> bool" where
  "isDigit R c = (digitOf R c \<noteq> None)"

definition mathInt :: "nat \<Rightarrow> string \<Rightarrow> nat" where
  "mathInt R Z = foldl (\<lambda>acc c. case digitOf R c of None \<Rightarrow> acc | Some v \<Rightarrow> acc * R + v) 0 Z"

definition stripSign :: "string \<Rightarrow> string" where
  "stripSign S = (case S of [] \<Rightarrow> [] | c # cs \<Rightarrow> if c = CHR ''+'' \<or> c = CHR ''-'' then cs else S)"

definition hasHexPrefix :: "string \<Rightarrow> bool" where
  "hasHexPrefix S =
     (case S of a # b # _ \<Rightarrow> a = CHR ''0'' \<and> (b = CHR ''x'' \<or> b = CHR ''X'') | _ \<Rightarrow> False)"

definition parseIntStr :: "string \<Rightarrow> jsnum" where
  "parseIntStr inputString =
     (let S = dropWhile isWhiteSpace inputString;
          negative = (case S of [] \<Rightarrow> False | c # _ \<Rightarrow> c = CHR ''-'');
          S1 = stripSign S;
          R = (if hasHexPrefix S1 then 16 else 10);
          S2 = (if hasHexPrefix S1 then drop 2 S1 else S1);
          Z = takeWhile (isDigit R) S2
      in if Z = [] then NaN
         else Num ((if negative then - 1 else 1) * int (mathInt R Z)))"

definition parseInt :: "val \<Rightarrow> jsnum" where
  "parseInt v = parseIntStr (toString v)"

text \<open>\<open>a || b\<close> on numbers: \<open>NaN\<close> and \<open>0\<close> are falsy.\<close>

definition truthyNum :: "jsnum \<Rightarrow> bool" where
  "truthyNum n = (case n of NaN \<Rightarrow> False | Num i \<Rightarrow> i \<noteq> 0)"

definition orNum :: "jsnum \<Rightarrow> jsnum \<Rightarrow> jsnum" where
  "orNum a b = (if truthyNum a then a else b)"

section \<open>Result rows and the Articles data setter\<close>

text \<open>
  A raw row is what the statement execution interface hands back: the \<open>dataValues\<close> of a
  model instance, keyed by column alias. Reading a key that is absent gives \<open>undefined\<close>.
  \<open>article.id\<close>, \<open>article.title\<close> and so on are the instance's attribute getters and read
  the same \<open>dataValues\<close>.
\<close>

type_synonym row = "(string \<times> val) list"

definition getv :: "row \<Rightarrow> string \<Rightarrow> val" where
  "getv r k = (case map_of r k of None \<Rightarrow> Undefined | Some v \<Rightarrow> v)"

record authorObject =
  author_id :: val
  author_displayName :: val
  author_hash :: val

record hubObject =
  hub_id :: val
  hub_name :: val

record tagObject =
  tag_id :: val
  tag_name :: val
  tag_hub :: val

record articleObject =
  art_id :: val
  art_title :: val
  art_abstract :: "val option"
  art_createdAt :: val
  art_author :: authorObject
  art_hubs :: "hubObject list"
  art_tags :: "tagObject list"
  art_answers :: jsnum
  art_votes :: jsnum

definition hubOf :: "row \<Rightarrow> hubObject" where
  "hubOf article = \<lparr>hub_id = getv article ''Hub.id'', hub_name = getv article ''Hub.name''\<rparr>"

definition tagOf :: "row \<Rightarrow> tagObject" where
  "tagOf article =
     \<lparr>tag_id = getv article ''Tag.id'', tag_name = getv article ''Tag.name'',
      tag_hub = getv article ''Tag.hub''\<rparr>"

definition authorOf :: "row \<Rightarrow> authorObject" where
  "authorOf article =
     \<lparr>author_id = getv article ''User.id'',
      author_displayName = getv article ''User.displayName'',
      author_hash = getv article ''User.hash''\<rparr>"

text \<open>The \<open>else\<close> branch of the loop body: the object built for a root id seen first.\<close>

definition newArticleObject :: "bool \<Rightarrow> row \<Rightarrow> articleObject" where
  "newArticleObject extended article =
     \<lparr>art_id = getv article ''id'',
      art_title = getv article ''title'',
      art_abstract = (if extended then Some (getv article ''abstract'') else None),
      art_createdAt = getv article ''createdAt'',
      art_author = authorOf article,
      art_hubs = [hubOf article],
      art_tags = [tagOf article],
      art_answers = parseInt (getv article ''answers''),
      art_votes = parseInt (getv article ''votes'')\<rparr>"

text \<open>The \<open>if (articleObject)\<close> branch: push the row's hub and tag unless one with that id is there.\<close>

definition addToArticle :: "row \<Rightarrow> articleObject \<Rightarrow> articleObject" where
  "addToArticle article articleObject =
     (let hub = hubOf article;
          tag = tagOf article;
          hasHub = list_ex (\<lambda>h. hub_id h = hub_id hub) (art_hubs articleObject);
          hasTag = list_ex (\<lambda>t. tag_id t = tag_id tag) (art_tags articleObject)
      in articleObject
           \<lparr>art_hubs := (if hasHub then art_hubs articleObject else art_hubs articleObject @ [hub]),
            art_tags := (if hasTag then art_tags articleObject else art_tags articleObject @ [tag])\<rparr>)"

text \<open>\<open>articles.find(...)\<close> returns the first match, which the branch then mutates in place.\<close>

fun updateFirst :: "('a \<Rightarrow> bool) \<Rightarrow> ('a \<Rightarrow> 'a) \<Rightarrow> 'a list \<Rightarrow> 'a list" where
  "updateFirst P f [] = []"
| "updateFirst P f (x # xs) = (if P x then f x # xs else x # updateFirst P f xs)"

definition dataStep :: "bool \<Rightarrow> articleObject list \<Rightarrow> row \<Rightarrow> articleObject list" where
  "dataStep extended articles article =
     (let articleId = getv article ''id''
      in case find (\<lambda>a. art_id a = articleId) articles of
           Some _ \<Rightarrow> updateFirst (\<lambda>a. art_id a = articleId) (addToArticle article) articles
         | None \<Rightarrow> articles @ [newArticleObject extended article])"

definition Articles_set_data :: "bool \<Rightarrow> row list \<Rightarrow> articleObject list" where
  "Articles_set_data extended articlesRaw = foldl (dataStep extended) [] articlesRaw"

text \<open>The order of first appearance of the values of a list, each value once.\<close>

definition first_seen :: "'a list \<Rightarrow> 'a list" where
  "first_seen xs = rev (remdups (rev xs))"

definition rowsOf :: "val \<Rightarrow> row list \<Rightarrow> row list" where
  "rowsOf k rows = filter (\<lambda>r. getv r ''id'' = k) rows"

text \<open>
  The fields a later row of the same root id never touches: they are those of the object
  built from the first row.
\<close>

definition sameScalars :: "bool \<Rightarrow> articleObject \<Rightarrow> row \<Rightarrow> bool" where
  "sameScalars ext e r0 =
     (art_id e = getv r0 ''id'' \<and> art_title e = getv r0 ''title'' \<and>
      art_abstract e = (if ext then Some (getv r0 ''abstract'') else None) \<and>
      art_createdAt e = getv r0 ''createdAt'' \<and> art_author e = authorOf r0 \<and>
      art_answers e = parseInt (getv r0 ''answers'') \<and> art_votes e = parseInt (getv r0 ''votes''))"

text \<open>Sample raw rows: article 1 joined to hubs 3 and 5, with the row of article 2 between its two rows.\<close>

definition exampleRows :: "row list" where
  "exampleRows =
     [[(''id'', IntV 1), (''title'', TextV ''a''), (''User.id'', IntV 4), (''Hub.id'', IntV 3),
       (''Tag.id'', IntV 7), (''answers'', TextV ''2''), (''votes'', TextV ''4'')],
      [(''id'', IntV 2), (''title'', TextV ''b''), (''User.id'', IntV 6), (''Hub.id'', IntV 3),
       (''Tag.id'', IntV 8), (''answers'', TextV ''0''), (''votes'', TextV ''0'')],
      [(''id'', IntV 1), (''title'', TextV ''a''), (''User.id'', IntV 4), (''Hub.id'', IntV 5),
       (''Tag.id'', IntV 7), (''answers'', TextV ''9''), (''votes'', TextV ''9'')]]"


section \<open>The public articles listing: request normalisation\<close>

text \<open>
  \<open>controllers/articles.js\<close>, function \<open>all\<close>: the object \<open>data\<close> built from the request body
  and handed to \<open>new Articles(data)\<close>. A body field that is absent reads \<open>undefined\<close>.
  \<open>filters\<close> and \<open>sorts\<close> are objects or falsy; \<open>None\<close> stands for \<open>false\<close>.
\<close>

definition ARTICLES_LIMIT :: int where
  "ARTICLES_LIMIT = 10"

record ('f, 's) requestBody =
  body_limit :: val
  body_offset :: val
  body_filters :: "'f option"
  body_sorts :: "'s option"

record ('f, 's) listInput =
  in_limit :: jsnum
  in_offset :: jsnum
  in_filters :: "'f option"
  in_sorts :: "'s option"

definition all_data :: "('f, 's) requestBody \<Rightarrow> ('f, 's) listInput" where
  "all_data body =
     \<lparr>in_limit = orNum (parseInt (body_limit body)) (Num ARTICLES_LIMIT),
      in_offset = orNum (parseInt (body_offset body)) (Num 0),
      in_filters = body_filters body,
      in_sorts = body_sorts body\<rparr>"

section \<open>Column expressions, filters and sorts\<close>

text \<open>
  The column expressions of \<open>Articles.cols\<close> (prefix \<open>A_\<close>) and \<open>Tags.cols\<close> (prefix \<open>T_\<close>),
  by name; \<open>sql\<close> gives the text each getter returns. \<open>DATE c\<close> is the expression
  \<open>DATE(${c})\<close> of \<open>Articles.where\<close>, and \<open>Rank\<close> the alias \<open>"rank"\<close> that \<open>order\<close> pushes.
\<close>

datatype col =
    A_id | A_title | A_abstract | A_createdAt | A_author | A_tsv
  | A_user_id | A_user_email | A_user_displayName | A_user_hash
  | A_hub_id | A_hub_name
  | A_tag_id | A_tag_name | A_tag_hub
  | A_count | A_answers | A_votes
  | T_id | T_name | T_hub | T_tsv | T_articles
  | DATE col
  | Rank

fun sql :: "col \<Rightarrow> string" where
  \<open>sql A_id = ''"Article"."id"''\<close>
| \<open>sql A_title = ''"Article"."title"''\<close>
| \<open>sql A_abstract = ''"Article"."abstract"''\<close>
| \<open>sql A_createdAt = ''"Article"."createdAt"''\<close>
| \<open>sql A_author = ''"Article"."author"''\<close>
| \<open>sql A_tsv = ''"Article"."tsv"''\<close>
| \<open>sql A_user_id = ''"User"."id"''\<close>
| \<open>sql A_user_email = ''"User"."email"''\<close>
| \<open>sql A_user_displayName = ''"User"."displayName"''\<close>
| \<open>sql A_user_hash = ''"User"."hash"''\<close>
| \<open>sql A_hub_id = ''"Hub"."id"''\<close>
| \<open>sql A_hub_name = ''"Hub"."name"''\<close>
| \<open>sql A_tag_id = ''"Tag"."id"''\<close>
| \<open>sql A_tag_name = ''"Tag"."name"''\<close>
| \<open>sql A_tag_hub = ''"Tag"."hub"''\<close>
| \<open>sql A_count = ''COUNT(DISTINCT("Article"."id"))''\<close>
| \<open>sql A_answers = ''COUNT(DISTINCT("ArticleAnswer"."id"))''\<close>
| \<open>sql A_votes = ''COALESCE(SUM("ArticleVote"."vote"), 0)''\<close>
| \<open>sql T_id = ''"Tag"."id"''\<close>
| \<open>sql T_name = ''"Tag"."name"''\<close>
| \<open>sql T_hub = ''"Tag"."hub"''\<close>
| \<open>sql T_tsv = ''"Tag"."tsv"''\<close>
| \<open>sql T_articles = ''COUNT(DISTINCT("Article"."id"))''\<close>
| \<open>sql (DATE c) = ''DATE('' @ sql c @ '')''\<close>
| \<open>sql Rank = ''"rank"''\<close>

datatype direction = ASC | DESC

text \<open>
  A filter as the list holds it under \<open>this.filters\<close>. The class that builds it from the
  caller's input (\<open>FilteredList\<close>) and the helper that renders it (\<open>prepareWhere\<close>) are not
  among the sources, so a caller's filter is kept as the condition it puts on the value
  of its column. The search filter is the object literal \<open>{tsMatch: true, operation}\<close> of
  the \<open>where\<close> getters, with the text of \<open>operation\<close>.
\<close>

datatype filterSpec = Filter "val \<Rightarrow> bool" | TsMatch string

type_synonym descriptor = "col \<times> filterSpec"

type_synonym sortDescriptor = "col \<times> direction"

record articleFilters =
  f_id :: "filterSpec option"
  f_title :: "filterSpec option"
  f_author :: "filterSpec option"
  f_hubs :: "filterSpec option"
  f_tags :: "filterSpec option"
  f_answers :: "filterSpec option"
  f_votes :: "filterSpec option"
  f_createdAt :: "filterSpec option"

record articleSorts =
  s_title :: "direction option"
  s_author :: "direction option"
  s_answers :: "direction option"
  s_votes :: "direction option"
  s_createdAt :: "direction option"

record tagFilters =
  tf_id :: "filterSpec option"
  tf_name :: "filterSpec option"
  tf_hub :: "filterSpec option"
  tf_articles :: "filterSpec option"

record tagSorts =
  ts_name :: "direction option"
  ts_articles :: "direction option"

text \<open>\<open>if (x) push({column, ...: x})\<close>: nothing is pushed for an absent (falsy) entry.\<close>

definition pushIf :: "'a option \<Rightarrow> col \<Rightarrow> (col \<times> 'a) list" where
  "pushIf x c = (case x of None \<Rightarrow> [] | Some v \<Rightarrow> [(c, v)])"

section \<open>The list objects\<close>

text \<open>
  The state of a list object: what the constructor stored (\<open>filters\<close>, \<open>sorts\<close>, \<open>limit\<close>,
  \<open>offset\<close>, \<open>search\<close>) and what \<open>setData\<close> writes (\<open>dataProxy\<close> behind the \<open>data\<close> accessor,
  \<open>total\<close>, the timings). \<open>search\<close> is a text or falsy (\<open>None\<close>); the empty text is falsy too.
  \<open>totalRaw\<close> is the value \<open>setData\<close> assigns to \<open>this.total\<close>: the rows of the count statement.
\<close>

record ('f, 's, 'd) filteredList =
  filters :: 'f
  sorts :: 's
  limit :: int
  offset :: int
  search :: "string option"
  dataProxy :: "'d list"
  totalRaw :: "row list"
  timings :: "nat list"

record articlesList = "(articleFilters, articleSorts, articleObject) filteredList" +
  extended :: bool

record tagEntity =
  te_id :: val
  te_name :: val
  te_hub :: val
  te_articles :: jsnum

type_synonym tagsList = "(tagFilters, tagSorts, tagEntity) filteredList"

definition searching :: "('f, 's, 'd, 'z) filteredList_scheme \<Rightarrow> bool" where
  "searching l = (case search l of None \<Rightarrow> False | Some s \<Rightarrow> s \<noteq> [])"

definition searchText :: "('f, 's, 'd, 'z) filteredList_scheme \<Rightarrow> string" where
  "searchText l = (case search l of None \<Rightarrow> [] | Some s \<Rightarrow> s)"

text \<open>
  \<open>tsQuery\<close> and \<open>rankCol\<close> are the same template in both classes, over the class's \<open>tsv\<close>
  column. \<open>CHR 0x27\<close> is the single quote of the template.
\<close>

definition tsQuery :: "('f, 's, 'd, 'z) filteredList_scheme \<Rightarrow> string" where
  "tsQuery l =
     (if searching l then ''plainto_tsquery('' @ [CHR 0x27] @ searchText l @ [CHR 0x27] @ '')''
      else [])"

definition rankCol :: "col \<Rightarrow> ('f, 's, 'd, 'z) filteredList_scheme \<Rightarrow> string" where
  "rankCol tsv l =
     (if searching l then ''TS_RANK('' @ sql tsv @ '', '' @ tsQuery l @ '')'' else [])"

text \<open>The select item \<open>${this.search ? `${this.rankCol} AS "rank",` : ''}\<close> of the page statements.\<close>

definition rankItem :: "col \<Rightarrow> ('f, 's, 'd, 'z) filteredList_scheme \<Rightarrow> string" where
  \<open>rankItem tsv l = (if searching l then rankCol tsv l @ '' AS "rank",'' else [])\<close>

definition searchDescriptor :: "col \<Rightarrow> ('f, 's, 'd, 'z) filteredList_scheme \<Rightarrow> descriptor list" where
  "searchDescriptor tsv l = (if searching l then [(tsv, TsMatch (tsQuery l))] else [])"

subsection \<open>Articles\<close>

text \<open>
  Each getter is the list of descriptors it hands to \<open>prepareWhere\<close> or \<open>prepareOrder\<close>,
  in the order of its \<open>push\<close> calls.
\<close>

definition Articles_where :: "articlesList \<Rightarrow> descriptor list" where
  "Articles_where l =
     pushIf (f_id (filters l)) A_id @
     pushIf (f_title (filters l)) A_title @
     pushIf (f_createdAt (filters l)) (DATE A_createdAt) @
     searchDescriptor A_tsv l"

definition Articles_userWhere :: "articlesList \<Rightarrow> descriptor list" where
  "Articles_userWhere l = pushIf (f_author (filters l)) A_user_id"

definition Articles_hubWhere :: "articlesList \<Rightarrow> descriptor list" where
  "Articles_hubWhere l = pushIf (f_hubs (filters l)) A_hub_id"

definition Articles_tagWhere :: "articlesList \<Rightarrow> descriptor list" where
  "Articles_tagWhere l = pushIf (f_tags (filters l)) A_tag_id"

definition Articles_having :: "articlesList \<Rightarrow> descriptor list" where
  "Articles_having l =
     pushIf (f_answers (filters l)) A_answers @ pushIf (f_votes (filters l)) A_votes"

definition Articles_order :: "articlesList \<Rightarrow> sortDescriptor list" where
  "Articles_order l =
     pushIf (s_title (sorts l)) A_title @
     pushIf (s_author (sorts l)) A_user_displayName @
     pushIf (s_answers (sorts l)) A_answers @
     pushIf (s_votes (sorts l)) A_votes @
     (case s_createdAt (sorts l) of
        Some d \<Rightarrow> [(A_createdAt, d)]
      | None \<Rightarrow> [(A_createdAt, DESC)]) @
     (if searching l then [(Rank, DESC)] else [])"

subsection \<open>Tags\<close>

definition Tags_where :: "tagsList \<Rightarrow> descriptor list" where
  "Tags_where l =
     pushIf (tf_id (filters l)) T_id @
     pushIf (tf_name (filters l)) T_name @
     pushIf (tf_hub (filters l)) T_hub @
     searchDescriptor T_tsv l"

definition Tags_having :: "tagsList \<Rightarrow> descriptor list" where
  "Tags_having l = pushIf (tf_articles (filters l)) T_articles"

definition Tags_order :: "tagsList \<Rightarrow> sortDescriptor list" where
  "Tags_order l =
     pushIf (ts_name (sorts l)) T_name @
     (case ts_articles (sorts l) of
        Some d \<Rightarrow> [(T_articles, d)]
      | None \<Rightarrow> [(T_articles, DESC)]) @
     (if searching l then [(Rank, DESC)] else [])"

text \<open>The \<open>data\<close> setter of \<open>Tags\<close>: one object per raw row.\<close>

definition Tags_set_data :: "row list \<Rightarrow> tagEntity list" where
  "Tags_set_data tagsRaw =
     map (\<lambda>tag. \<lparr>te_id = getv tag ''id'', te_name = getv tag ''name'', te_hub = getv tag ''hub'',
                  te_articles = parseInt (getv tag ''articles'')\<rparr>) tagsRaw"

section \<open>Statements and \<open>setData\<close>\<close>

text \<open>
  A statement is the query template of \<open>setData\<close> with the values interpolated into it.
  The join graph, the grouping columns and the select list are fixed by the template;
  what varies is recorded here. \<open>prepareWhere\<close>, \<open>prepareOrder\<close> and \<open>prepareQuery\<close>, which
  render the descriptor lists and tidy the text, are not among the sources, so the
  descriptor lists stand for the fragments they are rendered to.
\<close>

record articlesPage =
  p_extended :: bool
  p_rank :: string
  p_userWhere :: "descriptor list"
  p_hubWhere :: "descriptor list"
  p_tagWhere :: "descriptor list"
  p_where :: "descriptor list"
  p_having :: "descriptor list"
  p_order :: "sortDescriptor list"
  p_offset :: int
  p_limit :: int

record articlesTotal =
  c_userWhere :: "descriptor list"
  c_hubWhere :: "descriptor list"
  c_tagWhere :: "descriptor list"
  c_having :: "descriptor list"
  c_where :: "descriptor list"

record tagsPage =
  tp_rank :: string
  tp_where :: "descriptor list"
  tp_having :: "descriptor list"
  tp_order :: "sortDescriptor list"
  tp_offset :: int
  tp_limit :: int

record tagsTotal =
  tc_where :: "descriptor list"
  tc_having :: "descriptor list"

datatype statement =
    ArticlesPage articlesPage
  | ArticlesTotal articlesTotal
  | TagsPage tagsPage
  | TagsTotal tagsTotal

definition Articles_pageStatement :: "articlesList \<Rightarrow> statement" where
  "Articles_pageStatement l =
     ArticlesPage
       \<lparr>p_extended = extended l,
        p_rank = rankItem A_tsv l,
        p_userWhere = Articles_userWhere l,
        p_hubWhere = Articles_hubWhere l,
        p_tagWhere = Articles_tagWhere l,
        p_where = Articles_where l,
        p_having = Articles_having l,
        p_order = Articles_order l,
        p_offset = offset l,
        p_limit = limit l\<rparr>"

definition Articles_totalStatement :: "articlesList \<Rightarrow> statement" where
  "Articles_totalStatement l =
     ArticlesTotal
       \<lparr>c_userWhere = Articles_userWhere l,
        c_hubWhere = Articles_hubWhere l,
        c_tagWhere = Articles_tagWhere l,
        c_having = Articles_having l,
        c_where = Articles_where l\<rparr>"

definition Tags_pageStatement :: "tagsList \<Rightarrow> statement" where
  "Tags_pageStatement l =
     TagsPage
       \<lparr>tp_rank = rankItem T_tsv l,
        tp_where = Tags_where l,
        tp_having = Tags_having l,
        tp_order = Tags_order l,
        tp_offset = offset l,
        tp_limit = limit l\<rparr>"

definition Tags_totalStatement :: "tagsList \<Rightarrow> statement" where
  "Tags_totalStatement l =
     TagsTotal \<lparr>tc_where = Tags_where l, tc_having = Tags_having l\<rparr>"

text \<open>
  The statement execution interface \<open>this.db.query\<close>: from the state of the outside world
  and a statement to either the error it raises or the rows it resolves to, with the
  duration handed to the \<open>logging\<close> callback, and the world afterwards.
\<close>

type_synonym ('w, 'e) exec = "'w \<Rightarrow> statement \<Rightarrow> ('e + row list \<times> nat) \<times> 'w"

text \<open>
  Modelled from the spec: \<open>addTiming\<close> of the timing recorder (\<open>Benchmark\<close>, not among the
  sources) appends the duration to the owning list's timing sequence.
\<close>

definition addTiming :: "nat \<Rightarrow> ('f, 's, 'd, 'z) filteredList_scheme \<Rightarrow> ('f, 's, 'd, 'z) filteredList_scheme" where
  "addTiming timing l = l\<lparr>timings := timings l @ [timing]\<rparr>"

text \<open>
  \<open>setData\<close>: the two awaited queries in sequence inside \<open>try\<close>; \<open>catch (error) { throw error }\<close>
  hands the error on. The result is the error thrown or the value returned (\<open>true\<close> for
  Articles, nothing for Tags), the list object as the call leaves it, and the world.
\<close>

definition Articles_setData ::
  "('w, 'e) exec \<Rightarrow> articlesList \<Rightarrow> 'w \<Rightarrow> ('e + bool) \<times> articlesList \<times> 'w" where
  "Articles_setData exec l w =
     (case exec w (Articles_pageStatement l) of
        (Inl error, w1) \<Rightarrow> (Inl error, l, w1)
      | (Inr (articlesRaw, timing), w1) \<Rightarrow>
          (let l1 = (addTiming timing l)\<lparr>dataProxy := Articles_set_data (extended l) articlesRaw\<rparr>
           in case exec w1 (Articles_totalStatement l1) of
                (Inl error, w2) \<Rightarrow> (Inl error, l1, w2)
              | (Inr (raw, timing2), w2) \<Rightarrow>
                  (Inr True, (addTiming timing2 l1)\<lparr>totalRaw := raw\<rparr>, w2)))"

definition Tags_setData ::
  "('w, 'e) exec \<Rightarrow> tagsList \<Rightarrow> 'w \<Rightarrow> ('e + unit) \<times> tagsList \<times> 'w" where
  "Tags_setData exec l w =
     (case exec w (Tags_pageStatement l) of
        (Inl error, w1) \<Rightarrow> (Inl error, l, w1)
      | (Inr (tagsRaw, timing), w1) \<Rightarrow>
          (let l1 = (addTiming timing l)\<lparr>dataProxy := Tags_set_data tagsRaw\<rparr>
           in case exec w1 (Tags_totalStatement l1) of
                (Inl error, w2) \<Rightarrow> (Inl error, l1, w2)
              | (Inr (raw, timing2), w2) \<Rightarrow>
                  (Inr (), (addTiming timing2 l1)\<lparr>totalRaw := raw\<rparr>, w2)))"

text \<open>
  The same interface, keeping the sequence of the statements issued beside the world.
\<close>

definition logged :: "('w, 'e) exec \<Rightarrow> ('w \<times> statement list, 'e) exec" where
  "logged exec wl s =
     (case exec (fst wl) s of (r, w') \<Rightarrow> (r, (w', snd wl @ [s])))"

text \<open>What a query answers, its duration apart.\<close>

definition answerOf :: "('e + row list \<times> nat) \<Rightarrow> 'e + row list" where
  "answerOf r = (case r of Inl e \<Rightarrow> Inl e | Inr (rows, timing) \<Rightarrow> Inr rows)"

text \<open>
  Modelled from the spec: the \<open>total\<close> of the list (\<open>FilteredList\<close> is not among the
  sources): the integer in column \<open>total\<close> of the count statement's single row.
\<close>

definition totalOf :: "('f, 's, 'd, 'z) filteredList_scheme \<Rightarrow> jsnum" where
  "totalOf l = (case totalRaw l of [] \<Rightarrow> NaN | r # _ \<Rightarrow> parseInt (getv r ''total''))"

section \<open>The storage and the meaning of the statements\<close>

text \<open>
  The tables behind the models of \<open>article.js\<close> and \<open>tag.js\<close>, with the columns the
  listing statements read (\<open>raw\<close>, \<open>message\<close>, \<open>description\<close>, the voting and answering user
  and \<open>updatedAt\<close> are read by none). The User and Hub models are not among the sources;
  their columns are those \<open>Articles.cols\<close> names. \<open>createdAt\<close> is a time stamp.
\<close>

record article =
  a_id :: int
  a_title :: string
  a_abstract :: string
  a_author :: int
  a_tsv :: val
  a_createdAt :: int

record user =
  u_id :: int
  u_email :: string
  u_displayName :: string
  u_hash :: string

record hub =
  h_id :: int
  h_name :: string

record tag =
  t_id :: int
  t_name :: string
  t_hub :: int
  t_tsv :: val

record articleHub =
  ah_id :: int
  ah_article :: int
  ah_hub :: int

record articleTag =
  at_id :: int
  at_article :: int
  at_tag :: int

record articleAnswer =
  an_id :: int
  an_article :: int

record articleVote =
  v_id :: int
  v_article :: int
  v_vote :: int

text \<open>
  A storage is the contents of the tables together with what the database itself
  contributes to a statement: the full-text match and rank of a \<open>tsvector\<close> against the
  text of a query expression, \<open>DATE\<close> of a time stamp, and the ordering of result rows
  under an \<open>ORDER BY\<close> list (collation and the order of ties are the database's).
\<close>

record storage =
  Articles :: "article list"
  Users :: "user list"
  Hubs :: "hub list"
  Tags :: "tag list"
  ArticlesHubs :: "articleHub list"
  ArticlesTags :: "articleTag list"
  ArticlesAnswers :: "articleAnswer list"
  ArticlesVotes :: "articleVote list"
  tsMatches :: "val \<Rightarrow> string \<Rightarrow> bool"
  tsRank :: "string \<Rightarrow> val \<Rightarrow> val"
  dateOf :: "int \<Rightarrow> val"
  orderBy :: "sortDescriptor list \<Rightarrow> row list \<Rightarrow> row list"

datatype dbError = OffsetNegative | LimitNegative

subsection \<open>Column values and predicates\<close>

fun articleCol :: "storage \<Rightarrow> article \<Rightarrow> col \<Rightarrow> val" where
  "articleCol d a A_id = IntV (a_id a)"
| "articleCol d a A_title = TextV (a_title a)"
| "articleCol d a A_abstract = TextV (a_abstract a)"
| "articleCol d a A_createdAt = IntV (a_createdAt a)"
| "articleCol d a A_author = IntV (a_author a)"
| "articleCol d a A_tsv = a_tsv a"
| "articleCol d a (DATE c) = (case articleCol d a c of IntV ts \<Rightarrow> dateOf d ts | _ \<Rightarrow> Null)"
| "articleCol d a _ = Undefined"

text \<open>A row of the inner joins of the Articles statements: article, author, hub and tag links.\<close>

type_synonym base = "article \<times> user \<times> articleHub \<times> hub \<times> articleTag \<times> tag"

definition baseCol :: "storage \<Rightarrow> base \<Rightarrow> col \<Rightarrow> val" where
  "baseCol d b c =
     (case b of (a, u, ah, h, at, t) \<Rightarrow>
        (case c of
           A_user_id \<Rightarrow> IntV (u_id u)
         | A_user_email \<Rightarrow> TextV (u_email u)
         | A_user_displayName \<Rightarrow> TextV (u_displayName u)
         | A_user_hash \<Rightarrow> TextV (u_hash u)
         | A_hub_id \<Rightarrow> IntV (h_id h)
         | A_hub_name \<Rightarrow> TextV (h_name h)
         | A_tag_id \<Rightarrow> IntV (t_id t)
         | A_tag_name \<Rightarrow> TextV (t_name t)
         | A_tag_hub \<Rightarrow> IntV (t_hub t)
         | _ \<Rightarrow> articleCol d a c))"

definition tagCol :: "storage \<Rightarrow> tag \<Rightarrow> col \<Rightarrow> val" where
  "tagCol d t c =
     (case c of
        T_id \<Rightarrow> IntV (t_id t)
      | T_name \<Rightarrow> TextV (t_name t)
      | T_hub \<Rightarrow> IntV (t_hub t)
      | T_tsv \<Rightarrow> t_tsv t
      | _ \<Rightarrow> Undefined)"

text \<open>
  Modelled from the spec: the fragment \<open>prepareWhere\<close> renders for a descriptor list
  (\<open>utils/queries\<close> is not among the sources). Each descriptor is a boolean condition on
  its column, the conditions are combined with AND, and the empty list is \<open>TRUE\<close>; in
  join mode the fragment is appended to the \<open>ON\<close> condition with AND.
\<close>

definition holds :: "storage \<Rightarrow> (col \<Rightarrow> val) \<Rightarrow> descriptor \<Rightarrow> bool" where
  "holds d env x =
     (case x of
        (c, Filter p) \<Rightarrow> p (env c)
      | (c, TsMatch operation) \<Rightarrow> tsMatches d (env c) operation)"

definition holdsAll :: "storage \<Rightarrow> (col \<Rightarrow> val) \<Rightarrow> descriptor list \<Rightarrow> bool" where
  "holdsAll d env ds = list_all (holds d env) ds"

text \<open>Modelled from the spec: the filter kind \<open>ids\<close> is set membership of the column's value.\<close>

definition idsFilter :: "int list \<Rightarrow> filterSpec" where
  "idsFilter ids = Filter (\<lambda>v. list_ex (\<lambda>i. v = IntV i) ids)"

text \<open>
  Modelled from the spec: the filter kind \<open>numeric\<close> is an operator (\<open>=\<close>, \<open>>\<close>, \<open>>=\<close>, \<open><\<close>,
  \<open><=\<close>) and a value, compared with the column's value.
\<close>

datatype comparator = OpEq | OpGt | OpGe | OpLt | OpLe

definition numericFilter :: "comparator \<Rightarrow> int \<Rightarrow> filterSpec" where
  "numericFilter operator x =
     Filter (\<lambda>v. case v of
                  IntV n \<Rightarrow>
                    (case operator of
                       OpEq \<Rightarrow> n = x | OpGt \<Rightarrow> n > x | OpGe \<Rightarrow> n \<ge> x
                     | OpLt \<Rightarrow> n < x | OpLe \<Rightarrow> n \<le> x)
                | _ \<Rightarrow> False)"

subsection \<open>Joins, groups and aggregates\<close>

definition leftJoin :: "'b list \<Rightarrow> ('b \<Rightarrow> bool) \<Rightarrow> 'b option list" where
  "leftJoin tbl on = (case filter on tbl of [] \<Rightarrow> [None] | ms \<Rightarrow> map Some ms)"

definition groupBy :: "('a \<Rightarrow> 'k) \<Rightarrow> 'a list \<Rightarrow> ('k \<times> 'a list) list" where
  "groupBy key xs = map (\<lambda>k. (k, filter (\<lambda>x. key x = k) xs)) (remdups (map key xs))"

text \<open>
  The inner joins shared by both Articles statements, with the filter fragments on their
  \<open>ON\<close> conditions.
\<close>

definition innerJoined ::
  "storage \<Rightarrow> descriptor list \<Rightarrow> descriptor list \<Rightarrow> descriptor list \<Rightarrow> base list" where
  "innerJoined d userWhere hubWhere tagWhere =
     [(a, u, ah, h, at, t).
        a \<leftarrow> Articles d,
        u \<leftarrow> Users d, a_author a = u_id u,
        ah \<leftarrow> ArticlesHubs d, h \<leftarrow> Hubs d, h_id h = ah_hub ah, a_id a = ah_article ah,
        at \<leftarrow> ArticlesTags d, t \<leftarrow> Tags d, t_id t = at_tag at, a_id a = at_article at,
        holdsAll d (baseCol d (a, u, ah, h, at, t)) userWhere,
        holdsAll d (baseCol d (a, u, ah, h, at, t)) hubWhere,
        holdsAll d (baseCol d (a, u, ah, h, at, t)) tagWhere]"

text \<open>
  The two left outer joins \<open>ArticleAnswer\<close> and \<open>ArticleVote\<close> on the article's id: every
  answer row paired with every vote row, an absent side padded with null.
\<close>

definition answersVotes :: "storage \<Rightarrow> int \<Rightarrow> (articleAnswer option \<times> articleVote option) list" where
  "answersVotes d k =
     [(an, v).
        an \<leftarrow> leftJoin (ArticlesAnswers d) (\<lambda>x. k = an_article x),
        v \<leftarrow> leftJoin (ArticlesVotes d) (\<lambda>x. k = v_article x)]"

text \<open>\<open>COUNT(DISTINCT("ArticleAnswer"."id"))\<close> and \<open>COALESCE(SUM("ArticleVote"."vote"), 0)\<close> over a group.\<close>

definition countAnswers :: "(articleAnswer option \<times> articleVote option) list \<Rightarrow> int" where
  "countAnswers g = int (length (remdups [an_id x. (Some x, v) \<leftarrow> g]))"

definition sumVotes :: "(articleAnswer option \<times> articleVote option) list \<Rightarrow> int" where
  "sumVotes g = (case [v_vote x. (an, Some x) \<leftarrow> g] of [] \<Rightarrow> 0 | vs \<Rightarrow> sum_list vs)"

definition aggregateCol ::
  "(articleAnswer option \<times> articleVote option) list \<Rightarrow> (col \<Rightarrow> val) \<Rightarrow> col \<Rightarrow> val" where
  "aggregateCol g env c =
     (if c = A_answers then IntV (countAnswers g)
      else if c = A_votes then IntV (sumVotes g)
      else env c)"

text \<open>The driver hands a \<open>bigint\<close> (a count, a sum) over as decimal text.\<close>

definition bigintText :: "val \<Rightarrow> val" where
  "bigintText v = (case v of IntV i \<Rightarrow> TextV (show_int i) | _ \<Rightarrow> v)"

subsection \<open>The Articles statements\<close>

type_synonym joined = "base \<times> articleAnswer option \<times> articleVote option"

definition articleKey :: "joined \<Rightarrow> int \<times> int \<times> string \<times> int \<times> int \<times> int \<times> int" where
  "articleKey j =
     (case j of ((a, u, ah, h, at, t), av) \<Rightarrow>
        (a_id a, u_id u, u_email u, h_id h, ah_id ah, t_id t, at_id at))"

definition joinedArticles :: "storage \<Rightarrow> articlesPage \<Rightarrow> joined list" where
  "joinedArticles d p =
     [(b, av).
        b \<leftarrow> innerJoined d (p_userWhere p) (p_hubWhere p) (p_tagWhere p),
        av \<leftarrow> answersVotes d (a_id (fst b)),
        holdsAll d (baseCol d b) (p_where p)]"

definition groupCol :: "storage \<Rightarrow> joined list \<Rightarrow> col \<Rightarrow> val" where
  "groupCol d g =
     aggregateCol (map snd g) (case g of [] \<Rightarrow> (\<lambda>c. Null) | j # _ \<Rightarrow> baseCol d (fst j))"

definition articleRow :: "storage \<Rightarrow> articlesPage \<Rightarrow> joined list \<Rightarrow> row" where
  "articleRow d p g =
     (let env = groupCol d g
      in [(''id'', env A_id), (''title'', env A_title)] @
         (if p_extended p then [(''abstract'', env A_abstract)] else []) @
         [(''createdAt'', env A_createdAt)] @
         (if p_rank p = [] then [] else [(''rank'', tsRank d (p_rank p) (env A_tsv))]) @
         [(''User.id'', env A_user_id),
          (''User.displayName'', env A_user_displayName),
          (''User.hash'', env A_user_hash),
          (''Hub.id'', env A_hub_id),
          (''Hub.name'', env A_hub_name),
          (''Tag.id'', env A_tag_id),
          (''Tag.name'', env A_tag_name),
          (''Tag.hub'', env A_tag_hub),
          (''answers'', bigintText (env A_answers)),
          (''votes'', bigintText (env A_votes))])"

text \<open>The rows of the page statement before \<open>ORDER BY\<close>, \<open>OFFSET\<close> and \<open>LIMIT\<close>.\<close>

definition articleRows :: "storage \<Rightarrow> articlesPage \<Rightarrow> row list" where
  "articleRows d p =
     remdups
       [articleRow d p g.
          (k, g) \<leftarrow> groupBy articleKey (joinedArticles d p),
          holdsAll d (groupCol d g) (p_having p)]"

definition runArticlesPage :: "storage \<Rightarrow> articlesPage \<Rightarrow> dbError + row list" where
  "runArticlesPage d p =
     (if p_offset p < 0 then Inl OffsetNegative
      else if p_limit p < 0 then Inl LimitNegative
      else Inr (take (nat (p_limit p))
                  (drop (nat (p_offset p)) (orderBy d (p_order p) (articleRows d p)))))"

text \<open>
  The derived table \<open>ArticlesAnswerVote\<close> of the count statement: the article ids whose
  group (by id alone) passes \<open>HAVING\<close>.
\<close>

definition articlesAnswerVote :: "storage \<Rightarrow> descriptor list \<Rightarrow> int list" where
  "articlesAnswerVote d having =
     remdups
       [k.
          (k, g) \<leftarrow> groupBy (\<lambda>j. a_id (fst j))
                       [(a, av). a \<leftarrow> Articles d, av \<leftarrow> answersVotes d (a_id a)],
          holdsAll d
            (aggregateCol (map snd g) (case g of [] \<Rightarrow> (\<lambda>c. Null) | j # _ \<Rightarrow> articleCol d (fst j)))
            having]"

definition countedArticles :: "storage \<Rightarrow> articlesTotal \<Rightarrow> int list" where
  "countedArticles d c =
     [a_id (fst b).
        b \<leftarrow> innerJoined d (c_userWhere c) (c_hubWhere c) (c_tagWhere c),
        k \<leftarrow> articlesAnswerVote d (c_having c), a_id (fst b) = k,
        holdsAll d (baseCol d b) (c_where c)]"

definition runArticlesTotal :: "storage \<Rightarrow> articlesTotal \<Rightarrow> dbError + row list" where
  "runArticlesTotal d c =
     Inr [[(''total'', TextV (show_int (int (length (remdups (countedArticles d c))))))]]"

subsection \<open>The Tags statements\<close>

type_synonym tagJoined = "tag \<times> (articleTag \<times> article) option"

definition joinedTags :: "storage \<Rightarrow> descriptor list \<Rightarrow> tagJoined list" where
  "joinedTags d wh =
     [(t, m).
        t \<leftarrow> Tags d,
        m \<leftarrow> leftJoin [(at, a). at \<leftarrow> ArticlesTags d, a \<leftarrow> Articles d, a_id a = at_article at]
               (\<lambda>m. t_id t = at_tag (fst m)),
        holdsAll d (tagCol d t) wh]"

definition countArticles :: "tagJoined list \<Rightarrow> int" where
  "countArticles g = int (length (remdups [a_id (snd m). (t, Some m) \<leftarrow> g]))"

definition tagGroupCol :: "storage \<Rightarrow> tagJoined list \<Rightarrow> col \<Rightarrow> val" where
  "tagGroupCol d g c =
     (if c = T_articles then IntV (countArticles g)
      else case g of [] \<Rightarrow> Null | j # _ \<Rightarrow> tagCol d (fst j) c)"

definition tagRow :: "storage \<Rightarrow> tagsPage \<Rightarrow> tagJoined list \<Rightarrow> row" where
  "tagRow d p g =
     (let env = tagGroupCol d g
      in [(''id'', env T_id), (''name'', env T_name), (''hub'', env T_hub)] @
         (if tp_rank p = [] then [] else [(''rank'', tsRank d (tp_rank p) (env T_tsv))]) @
         [(''articles'', bigintText (env T_articles))])"

definition tagGroups :: "storage \<Rightarrow> descriptor list \<Rightarrow> descriptor list \<Rightarrow> (int \<times> tagJoined list) list" where
  "tagGroups d wh having =
     [(k, g). (k, g) \<leftarrow> groupBy (\<lambda>j. t_id (fst j)) (joinedTags d wh),
              holdsAll d (tagGroupCol d g) having]"

definition runTagsPage :: "storage \<Rightarrow> tagsPage \<Rightarrow> dbError + row list" where
  "runTagsPage d p =
     (if tp_offset p < 0 then Inl OffsetNegative
      else if tp_limit p < 0 then Inl LimitNegative
      else Inr (take (nat (tp_limit p))
                  (drop (nat (tp_offset p))
                     (orderBy d (tp_order p)
                        (remdups (map (\<lambda>kg. tagRow d p (snd kg))
                                    (tagGroups d (tp_where p) (tp_having p))))))))"

definition runTagsTotal :: "storage \<Rightarrow> tagsTotal \<Rightarrow> dbError + row list" where
  "runTagsTotal d c =
     Inr [[(''total'',
            TextV (show_int (int (length (remdups (map fst (tagGroups d (tc_where c) (tc_having c))))))))]]"

subsection \<open>A storage as execution interface\<close>

definition run :: "storage \<Rightarrow> statement \<Rightarrow> dbError + row list" where
  "run d s =
     (case s of
        ArticlesPage p \<Rightarrow> runArticlesPage d p
      | ArticlesTotal c \<Rightarrow> runArticlesTotal d c
      | TagsPage p \<Rightarrow> runTagsPage d p
      | TagsTotal c \<Rightarrow> runTagsTotal d c)"

text \<open>Listing statements only read: the storage is the world, and it stays as it is.\<close>

definition storageExec :: "nat \<Rightarrow> (storage, dbError) exec" where
  "storageExec timing d s =
     (case run d s of Inl e \<Rightarrow> (Inl e, d) | Inr rows \<Rightarrow> (Inr (rows, timing), d))"

section \<open>What a listing is to count\<close>

text \<open>
  The six rows of a joined row are in their tables and satisfy the join conditions of
  the \<open>FROM\<close> clause of the Articles statements.
\<close>

definition joins :: "storage \<Rightarrow> base \<Rightarrow> bool" where
  "joins d b =
     (case b of (a, u, ah, h, at, t) \<Rightarrow>
        a \<in> set (Articles d) \<and> u \<in> set (Users d) \<and> ah \<in> set (ArticlesHubs d) \<and>
        h \<in> set (Hubs d) \<and> at \<in> set (ArticlesTags d) \<and> t \<in> set (Tags d) \<and>
        a_author a = u_id u \<and> h_id h = ah_hub ah \<and> a_id a = ah_article ah \<and>
        t_id t = at_tag at \<and> a_id a = at_article at)"

text \<open>
  The aggregates of an article as its tables give them: the number of its distinct
  answers and the sum of its votes.
\<close>

definition answerCount :: "storage \<Rightarrow> int \<Rightarrow> int" where
  "answerCount d k = int (card (an_id ` {x \<in> set (ArticlesAnswers d). an_article x = k}))"

definition voteSum :: "storage \<Rightarrow> int \<Rightarrow> int" where
  "voteSum d k = sum_list (map v_vote (filter (\<lambda>x. v_article x = k) (ArticlesVotes d)))"

definition trueAggregates :: "storage \<Rightarrow> int \<Rightarrow> col \<Rightarrow> val" where
  "trueAggregates d k c =
     (if c = A_answers then IntV (answerCount d k)
      else if c = A_votes then IntV (voteSum d k)
      else Null)"

text \<open>
  The root articles of a list, in the words of the claim: the ids of the articles that
  have a joined row passing the predicates of \<open>where\<close> and of the three join filters,
  and whose answer count and vote sum pass the predicates of \<open>having\<close>. Limit and offset
  play no part.
\<close>

definition articleRoots :: "storage \<Rightarrow> articlesList \<Rightarrow> int set" where
  "articleRoots d l =
     {k. \<exists>b. joins d b \<and> a_id (fst b) = k \<and>
        holdsAll d (baseCol d b)
          (Articles_userWhere l @ Articles_hubWhere l @ Articles_tagWhere l @ Articles_where l) \<and>
        holdsAll d (trueAggregates d k) (Articles_having l)}"

text \<open>
  What the count statement counts: the same, but with \<open>HAVING\<close> applied to the aggregates
  as the statement computes them, over the rows pairing every answer with every vote.
\<close>

definition countedRoots :: "storage \<Rightarrow> articlesList \<Rightarrow> int set" where
  "countedRoots d l =
     {k. \<exists>b. joins d b \<and> a_id (fst b) = k \<and>
        holdsAll d (baseCol d b)
          (Articles_userWhere l @ Articles_hubWhere l @ Articles_tagWhere l @ Articles_where l) \<and>
        holdsAll d (aggregateCol (answersVotes d k) (\<lambda>c. Null)) (Articles_having l)}"

text \<open>The articles a tag is linked to, and the root tags of a list.\<close>

definition articlesOfTag :: "storage \<Rightarrow> int \<Rightarrow> int set" where
  "articlesOfTag d k =
     {a_id a | a at. at \<in> set (ArticlesTags d) \<and> a \<in> set (Articles d) \<and>
                     at_tag at = k \<and> at_article at = a_id a}"

definition tagRoots :: "storage \<Rightarrow> tagsList \<Rightarrow> int set" where
  "tagRoots d l =
     {k. \<exists>t. t \<in> set (Tags d) \<and> t_id t = k \<and>
          holdsAll d (tagCol d t) (Tags_where l) \<and>
          holdsAll d (\<lambda>c. IntV (int (card (articlesOfTag d k)))) (Tags_having l)}"

text \<open>The database's \<open>ORDER BY\<close> rearranges the rows it is given and does nothing else.\<close>

definition ordersFaithfully :: "storage \<Rightarrow> bool" where
  "ordersFaithfully d = (\<forall>os rows. mset (orderBy d os rows) = mset rows)"

section \<open>Sample inputs\<close>

definition noArticleFilters :: articleFilters where
  "noArticleFilters =
     \<lparr>f_id = None, f_title = None, f_author = None, f_hubs = None, f_tags = None,
      f_answers = None, f_votes = None, f_createdAt = None\<rparr>"

definition noTagFilters :: tagFilters where
  "noTagFilters = \<lparr>tf_id = None, tf_name = None, tf_hub = None, tf_articles = None\<rparr>"

text \<open>An Articles list sorted by title, searching for \<open>foo\<close>; a Tags list sorted by name.\<close>

definition sampleArticles :: articlesList where
  "sampleArticles =
     \<lparr>filters = noArticleFilters,
      sorts = \<lparr>s_title = Some ASC, s_author = None, s_answers = None, s_votes = None,
               s_createdAt = None\<rparr>,
      limit = 10, offset = 0, search = Some ''foo'', dataProxy = [], totalRaw = [],
      timings = [], extended = False\<rparr>"

definition sampleTags :: tagsList where
  "sampleTags =
     \<lparr>filters = noTagFilters, sorts = \<lparr>ts_name = Some ASC, ts_articles = None\<rparr>,
      limit = 10, offset = 0, search = Some ''foo'', dataProxy = [], totalRaw = [],
      timings = []\<rparr>"

text \<open>A request body asking for limit 0 with an offset that is no number.\<close>

definition zeroLimitBody :: "(unit, unit) requestBody" where
  "zeroLimitBody =
     \<lparr>body_limit = IntV 0, body_offset = TextV ''abc'', body_filters = None,
      body_sorts = None\<rparr>"

text \<open>
  Execution interfaces for the samples. The world is a counter of the statements
  run, which also serves as the duration reported.
\<close>

definition alwaysFails :: "(nat, string) exec" where
  "alwaysFails w s = (Inl ''connection refused'', Suc w)"

definition countFails :: "(nat, string) exec" where
  "countFails w s =
     (case s of
        ArticlesPage _ \<Rightarrow> (Inr (exampleRows, w), Suc w)
      | TagsPage _ \<Rightarrow> (Inr ([], w), Suc w)
      | _ \<Rightarrow> (Inl ''statement timeout'', Suc w))"

definition fixedAnswers :: "(nat, string) exec" where
  \<open>fixedAnswers w s =
     (case s of
        ArticlesPage _ \<Rightarrow> (Inr (exampleRows, w), Suc w)
      | ArticlesTotal _ \<Rightarrow> (Inr ([[(''total'', TextV ''2'')]], w), Suc w)
      | TagsPage _ \<Rightarrow>
          (Inr ([[(''id'', IntV 7), (''name'', TextV ''js''), (''hub'', IntV 3),
                  (''articles'', TextV ''1'')]], w), Suc w)
      | TagsTotal _ \<Rightarrow> (Inr ([[(''total'', TextV ''1'')]], w), Suc w))\<close>

text \<open>
  A storage with one article (id 1, by user 1, tag 7). In \<open>votesStorage\<close> it is in hub 3 and
  has two answers and one vote, of value 5. In \<open>hubsStorage\<close> it is in hubs 3 and 5. The
  sample database returns rows in the order of its tables; every sample result is the
  rows of one article, which tie under every \<open>ORDER BY\<close> key.
\<close>

definition emptyStorage :: storage where
  "emptyStorage =
     \<lparr>Articles = [], Users = [], Hubs = [], Tags = [], ArticlesHubs = [], ArticlesTags = [],
      ArticlesAnswers = [], ArticlesVotes = [],
      tsMatches = (\<lambda>v q. False), tsRank = (\<lambda>q v. IntV 0),
      dateOf = (\<lambda>ts. IntV (ts div 86400)),
      orderBy = (\<lambda>os rows. rows)\<rparr>"

definition oneArticleStorage :: storage where
  "oneArticleStorage =
     emptyStorage
       \<lparr>Articles := [\<lparr>a_id = 1, a_title = ''On primes'', a_abstract = ''x'', a_author = 1,
                      a_tsv = Null, a_createdAt = 100\<rparr>],
        Users := [\<lparr>u_id = 1, u_email = ''a@b.c'', u_displayName = ''ann'', u_hash = ''h''\<rparr>],
        Hubs := [\<lparr>h_id = 3, h_name = ''algebra''\<rparr>, \<lparr>h_id = 5, h_name = ''crypto''\<rparr>],
        Tags := [\<lparr>t_id = 7, t_name = ''rsa'', t_hub = 3, t_tsv = Null\<rparr>],
        ArticlesTags := [\<lparr>at_id = 1, at_article = 1, at_tag = 7\<rparr>]\<rparr>"

definition votesStorage :: storage where
  "votesStorage =
     oneArticleStorage
       \<lparr>ArticlesHubs := [\<lparr>ah_id = 1, ah_article = 1, ah_hub = 3\<rparr>],
        ArticlesAnswers := [\<lparr>an_id = 1, an_article = 1\<rparr>, \<lparr>an_id = 2, an_article = 1\<rparr>],
        ArticlesVotes := [\<lparr>v_id = 1, v_article = 1, v_vote = 5\<rparr>]\<rparr>"

definition hubsStorage :: storage where
  "hubsStorage =
     oneArticleStorage
       \<lparr>ArticlesHubs := [\<lparr>ah_id = 1, ah_article = 1, ah_hub = 3\<rparr>,
                         \<lparr>ah_id = 2, ah_article = 1, ah_hub = 5\<rparr>]\<rparr>"

text \<open>A list with no filter, sort or search, and the same list filtered by \<open>hubs = [3]\<close>.\<close>

definition plainArticles :: articlesList where
  "plainArticles =
     \<lparr>filters = noArticleFilters,
      sorts = \<lparr>s_title = None, s_author = None, s_answers = None, s_votes = None,
               s_createdAt = None\<rparr>,
      limit = 10, offset = 0, search = None, dataProxy = [], totalRaw = [],
      timings = [], extended = False\<rparr>"

definition hubs3Articles :: articlesList where
  "hubs3Articles = plainArticles\<lparr>filters := noArticleFilters\<lparr>f_hubs := Some (idsFilter [3])\<rparr>\<rparr>"

text \<open>The plain list filtered by \<open>votes = 5\<close>, and by \<open>votes >= 6\<close>.\<close>

definition votesEq5Articles :: articlesList where
  "votesEq5Articles =
     plainArticles\<lparr>filters := noArticleFilters\<lparr>f_votes := Some (numericFilter OpEq 5)\<rparr>\<rparr>"

definition votesGe6Articles :: articlesList where
  "votesGe6Articles =
     plainArticles\<lparr>filters := noArticleFilters\<lparr>f_votes := Some (numericFilter OpGe 6)\<rparr>\<rparr>"

definition plainTags :: tagsList where
  "plainTags =
     \<lparr>filters = noTagFilters, sorts = \<lparr>ts_name = None, ts_articles = None\<rparr>,
      limit = 10, offset = 0, search = None, dataProxy = [], totalRaw = [],
      timings = []\<rparr>"

section \<open>Properties of the Articles data setter\<close>

lemma first_seen_snoc: "first_seen (xs @ [x]) = (if x \<in> set xs then first_seen xs else first_seen xs @ [x])"
  by (simp add: first_seen_def)

lemma set_first_seen: "set (first_seen xs) = set xs" by (simp add: first_seen_def)
lemma distinct_first_seen: "distinct (first_seen xs)" by (simp add: first_seen_def)
lemma length_first_seen: "length (first_seen xs) = card (set xs)"
  by (simp add: first_seen_def length_remdups_card_conv)

lemma updateFirst_distinct:
  "distinct (map key xs) \<Longrightarrow> updateFirst (\<lambda>a. key a = k) f xs = map (\<lambda>a. if key a = k then f a else a) xs"
  by (induction xs) (auto simp: image_iff intro!: map_idI[symmetric])

lemma art_id_addToArticle: "art_id (addToArticle r a) = art_id a"
  by (simp add: addToArticle_def Let_def)

lemma set_data_snoc: "Articles_set_data ext (rows @ [r]) = dataStep ext (Articles_set_data ext rows) r"
  by (simp add: Articles_set_data_def)

lemma dataStep_eq:
  "dataStep ext acc r =
     (if getv r ''id'' \<in> art_id ` set acc
      then updateFirst (\<lambda>a. art_id a = getv r ''id'') (addToArticle r) acc
      else acc @ [newArticleObject ext r])"
proof (cases "find (\<lambda>a. art_id a = getv r ''id'') acc")
  case None
  then have "getv r ''id'' \<notin> art_id ` set acc" by (auto simp: find_None_iff)
  with None show ?thesis by (simp add: dataStep_def)
next
  case (Some a)
  then have "find (\<lambda>a. art_id a = getv r ''id'') acc \<noteq> None" by simp
  then obtain x where x: "x \<in> set acc" "art_id x = getv r ''id''"
    unfolding find_None_iff by blast
  have "art_id x \<in> art_id ` set acc" using x(1) by (rule imageI)
  then have "getv r ''id'' \<in> art_id ` set acc" by (simp only: x(2))
  with Some show ?thesis by (simp add: dataStep_def)
qed

lemma ids_updateFirst: "map art_id (updateFirst P (addToArticle r) xs) = map art_id xs"
  by (induction xs) (simp_all add: art_id_addToArticle)

lemma ids_dataStep:
  "map art_id (dataStep ext acc r) =
     (if getv r ''id'' \<in> art_id ` set acc then map art_id acc else map art_id acc @ [getv r ''id''])"
  by (simp add: dataStep_eq ids_updateFirst newArticleObject_def)

lemma ids_set_data: "map art_id (Articles_set_data ext rows) = first_seen (map (\<lambda>r. getv r ''id'') rows)"
proof (induction rows rule: rev_induct)
  case Nil
  then show ?case by (simp add: Articles_set_data_def first_seen_def)
next
  case (snoc r rows)
  have "set (map art_id (Articles_set_data ext rows)) = set (map (\<lambda>r. getv r ''id'') rows)"
    by (simp only: snoc.IH set_first_seen)
  then have "art_id ` set (Articles_set_data ext rows) = (\<lambda>r. getv r ''id'') ` set rows"
    by simp
  with snoc.IH show ?case
    by (simp add: set_data_snoc ids_dataStep first_seen_snoc)
qed


lemma distinct_ids: "distinct (map art_id (Articles_set_data ext rows))"
  by (simp add: ids_set_data distinct_first_seen)

lemma set_ids: "art_id ` set (Articles_set_data ext rows) = (\<lambda>r. getv r ''id'') ` set rows"
  using arg_cong[OF ids_set_data, of set ext rows] by (simp add: set_first_seen)

lemma set_data_snoc_eq:
  "Articles_set_data ext (rows @ [r]) =
     (if getv r ''id'' \<in> (\<lambda>r. getv r ''id'') ` set rows
      then map (\<lambda>a. if art_id a = getv r ''id'' then addToArticle r a else a) (Articles_set_data ext rows)
      else Articles_set_data ext rows @ [newArticleObject ext r])"
  by (simp add: set_data_snoc dataStep_eq set_ids updateFirst_distinct[OF distinct_ids])


lemma find_snoc: "find P (xs @ [x]) = (case find P xs of None \<Rightarrow> (if P x then Some x else None) | Some y \<Rightarrow> Some y)"
  by (induction xs) auto

lemma rowsOf_snoc: "rowsOf k (rows @ [r]) = (if getv r ''id'' = k then rowsOf k rows @ [r] else rowsOf k rows)"
  by (simp add: rowsOf_def)

lemma rowsOf_empty: "k \<notin> (\<lambda>r. getv r ''id'') ` set rows \<Longrightarrow> rowsOf k rows = []"
  by (auto simp: rowsOf_def filter_empty_conv)

lemma mem_ids: "e \<in> set (Articles_set_data ext rows) \<Longrightarrow> art_id e \<in> (\<lambda>r. getv r ''id'') ` set rows"
  using set_ids[of ext rows] by blast

lemma in_image_eq: "x \<in> A \<Longrightarrow> f x = v \<Longrightarrow> v \<in> f ` A"
  by blast

lemma hubs_addToArticle:
  "map hub_id (art_hubs (addToArticle r a)) =
     (if getv r ''Hub.id'' \<in> set (map hub_id (art_hubs a)) then map hub_id (art_hubs a)
      else map hub_id (art_hubs a) @ [getv r ''Hub.id''])"
  by (auto simp: addToArticle_def Let_def hubOf_def list_ex_iff intro: in_image_eq)

lemma tags_addToArticle:
  "map tag_id (art_tags (addToArticle r a)) =
     (if getv r ''Tag.id'' \<in> set (map tag_id (art_tags a)) then map tag_id (art_tags a)
      else map tag_id (art_tags a) @ [getv r ''Tag.id''])"
  by (auto simp: addToArticle_def Let_def tagOf_def list_ex_iff intro: in_image_eq)

lemma hub_ids_set_data:
  "e \<in> set (Articles_set_data ext rows) \<Longrightarrow>
     map hub_id (art_hubs e) = first_seen (map (\<lambda>r. getv r ''Hub.id'') (rowsOf (art_id e) rows))"
proof (induction rows arbitrary: e rule: rev_induct)
  case Nil
  then show ?case by (simp add: Articles_set_data_def)
next
  case (snoc r rows)
  show ?case
  proof (cases "getv r ''id'' \<in> (\<lambda>r. getv r ''id'') ` set rows")
    case True
    with snoc.prems obtain a where a: "a \<in> set (Articles_set_data ext rows)"
      and e: "e = (if art_id a = getv r ''id'' then addToArticle r a else a)"
      by (auto simp: set_data_snoc_eq)
    show ?thesis
      using snoc.IH[OF a] e
      by (simp add: rowsOf_snoc art_id_addToArticle hubs_addToArticle first_seen_snoc set_first_seen)
  next
    case False
    with snoc.prems consider "e \<in> set (Articles_set_data ext rows)" | "e = newArticleObject ext r"
      by (auto simp: set_data_snoc_eq)
    then show ?thesis
    proof cases
      case 1
      with False have "art_id e \<noteq> getv r ''id''" using mem_ids by metis
      with snoc.IH[OF 1] show ?thesis by (simp add: rowsOf_snoc)
    next
      case 2
      with False show ?thesis
        by (simp add: rowsOf_snoc rowsOf_empty newArticleObject_def hubOf_def first_seen_def)
    qed
  qed
qed

lemma tag_ids_set_data:
  "e \<in> set (Articles_set_data ext rows) \<Longrightarrow>
     map tag_id (art_tags e) = first_seen (map (\<lambda>r. getv r ''Tag.id'') (rowsOf (art_id e) rows))"
proof (induction rows arbitrary: e rule: rev_induct)
  case Nil
  then show ?case by (simp add: Articles_set_data_def)
next
  case (snoc r rows)
  show ?case
  proof (cases "getv r ''id'' \<in> (\<lambda>r. getv r ''id'') ` set rows")
    case True
    with snoc.prems obtain a where a: "a \<in> set (Articles_set_data ext rows)"
      and e: "e = (if art_id a = getv r ''id'' then addToArticle r a else a)"
      by (auto simp: set_data_snoc_eq)
    show ?thesis
      using snoc.IH[OF a] e
      by (simp add: rowsOf_snoc art_id_addToArticle tags_addToArticle first_seen_snoc set_first_seen)
  next
    case False
    with snoc.prems consider "e \<in> set (Articles_set_data ext rows)" | "e = newArticleObject ext r"
      by (auto simp: set_data_snoc_eq)
    then show ?thesis
    proof cases
      case 1
      with False have "art_id e \<noteq> getv r ''id''" using mem_ids by metis
      with snoc.IH[OF 1] show ?thesis by (simp add: rowsOf_snoc)
    next
      case 2
      with False show ?thesis
        by (simp add: rowsOf_snoc rowsOf_empty newArticleObject_def tagOf_def first_seen_def)
    qed
  qed
qed


lemma scalars_addToArticle:
  "art_title (addToArticle r a) = art_title a" "art_abstract (addToArticle r a) = art_abstract a"
  "art_createdAt (addToArticle r a) = art_createdAt a" "art_author (addToArticle r a) = art_author a"
  "art_answers (addToArticle r a) = art_answers a" "art_votes (addToArticle r a) = art_votes a"
  by (simp_all add: addToArticle_def Let_def)

lemma sameScalars_addToArticle: "sameScalars ext (addToArticle r a) r0 = sameScalars ext a r0"
  by (simp add: sameScalars_def scalars_addToArticle art_id_addToArticle)

lemma find_rowsOf_empty: "k \<notin> (\<lambda>r. getv r ''id'') ` set rows \<Longrightarrow> find (\<lambda>r. getv r ''id'' = k) rows = None"
  by (auto simp: find_None_iff)

lemma scalars_set_data:
  "e \<in> set (Articles_set_data ext rows) \<Longrightarrow>
     \<exists>r0. find (\<lambda>r. getv r ''id'' = art_id e) rows = Some r0 \<and> sameScalars ext e r0"
proof (induction rows arbitrary: e rule: rev_induct)
  case Nil
  then show ?case by (simp add: Articles_set_data_def)
next
  case (snoc r rows)
  show ?case
  proof (cases "getv r ''id'' \<in> (\<lambda>r. getv r ''id'') ` set rows")
    case True
    with snoc.prems obtain a where a: "a \<in> set (Articles_set_data ext rows)"
      and e: "e = (if art_id a = getv r ''id'' then addToArticle r a else a)"
      by (auto simp: set_data_snoc_eq)
    from snoc.IH[OF a] obtain r0 where
      r0: "find (\<lambda>r. getv r ''id'' = art_id a) rows = Some r0" "sameScalars ext a r0" by blast
    have "art_id e = art_id a" using e by (simp add: art_id_addToArticle)
    moreover have "sameScalars ext e r0" using e r0(2) by (simp add: sameScalars_addToArticle)
    ultimately show ?thesis using r0(1) by (simp add: find_snoc)
  next
    case False
    with snoc.prems consider "e \<in> set (Articles_set_data ext rows)" | "e = newArticleObject ext r"
      by (auto simp: set_data_snoc_eq)
    then show ?thesis
    proof cases
      case 1
      from snoc.IH[OF 1] show ?thesis by (auto simp: find_snoc)
    next
      case 2
      have "find (\<lambda>x. getv x ''id'' = getv r ''id'') rows = None"
        using False by (rule find_rowsOf_empty)
      with 2 show ?thesis
        by (simp add: find_snoc newArticleObject_def sameScalars_def)
    qed
  qed
qed





text \<open>
  C3. For every sequence of raw rows the data setter yields one object per distinct root
  id, in the order in which the root ids first appear. The ids of an object's \<open>hubs\<close>
  (and \<open>tags\<close>) are the distinct hub (tag) ids of the rows of that root id, each once, so
  the collection's size is the number of distinct ids and not the number of rows. The
  author, \<open>answers\<close> and \<open>votes\<close> are those of the first row of the root id.
\<close>

theorem Articles_set_data_denormalizes:
  "map art_id (Articles_set_data ext rows) = first_seen (map (\<lambda>r. getv r ''id'') rows) \<and>
   length (Articles_set_data ext rows) = card ((\<lambda>r. getv r ''id'') ` set rows) \<and>
   (\<forall>e \<in> set (Articles_set_data ext rows).
      map hub_id (art_hubs e) =
        first_seen (map (\<lambda>r. getv r ''Hub.id'') (rowsOf (art_id e) rows)) \<and>
      length (art_hubs e) = card ((\<lambda>r. getv r ''Hub.id'') ` set (rowsOf (art_id e) rows)) \<and>
      map tag_id (art_tags e) =
        first_seen (map (\<lambda>r. getv r ''Tag.id'') (rowsOf (art_id e) rows)) \<and>
      length (art_tags e) = card ((\<lambda>r. getv r ''Tag.id'') ` set (rowsOf (art_id e) rows)) \<and>
      (\<exists>r0. find (\<lambda>r. getv r ''id'' = art_id e) rows = Some r0 \<and>
            art_author e = authorOf r0 \<and>
            art_answers e = parseInt (getv r0 ''answers'') \<and>
            art_votes e = parseInt (getv r0 ''votes'')))"
proof -
  have n: "length (Articles_set_data ext rows) = card ((\<lambda>r. getv r ''id'') ` set rows)"
    using arg_cong[OF ids_set_data, of length ext rows] by (simp add: length_first_seen)
  have per: "map hub_id (art_hubs e) =
        first_seen (map (\<lambda>r. getv r ''Hub.id'') (rowsOf (art_id e) rows)) \<and>
      length (art_hubs e) = card ((\<lambda>r. getv r ''Hub.id'') ` set (rowsOf (art_id e) rows)) \<and>
      map tag_id (art_tags e) =
        first_seen (map (\<lambda>r. getv r ''Tag.id'') (rowsOf (art_id e) rows)) \<and>
      length (art_tags e) = card ((\<lambda>r. getv r ''Tag.id'') ` set (rowsOf (art_id e) rows)) \<and>
      (\<exists>r0. find (\<lambda>r. getv r ''id'' = art_id e) rows = Some r0 \<and>
            art_author e = authorOf r0 \<and>
            art_answers e = parseInt (getv r0 ''answers'') \<and>
            art_votes e = parseInt (getv r0 ''votes''))"
    if e: "e \<in> set (Articles_set_data ext rows)" for e
  proof -
    note h = hub_ids_set_data[OF e]
    note t = tag_ids_set_data[OF e]
    have hl: "length (art_hubs e) = card ((\<lambda>r. getv r ''Hub.id'') ` set (rowsOf (art_id e) rows))"
      using arg_cong[OF h, of length] by (simp add: length_first_seen)
    have tl: "length (art_tags e) = card ((\<lambda>r. getv r ''Tag.id'') ` set (rowsOf (art_id e) rows))"
      using arg_cong[OF t, of length] by (simp add: length_first_seen)
    from scalars_set_data[OF e] have
      "\<exists>r0. find (\<lambda>r. getv r ''id'' = art_id e) rows = Some r0 \<and>
            art_author e = authorOf r0 \<and>
            art_answers e = parseInt (getv r0 ''answers'') \<and>
            art_votes e = parseInt (getv r0 ''votes'')"
      by (auto simp: sameScalars_def)
    with h t hl tl show ?thesis by blast
  qed
  from ids_set_data n per show ?thesis by blast
qed

theorem Articles_set_data_denormalizes_witness:
  "map art_id (Articles_set_data False exampleRows) = [IntV 1, IntV 2] \<and>
   map (\<lambda>e. map hub_id (art_hubs e)) (Articles_set_data False exampleRows) =
     [[IntV 3, IntV 5], [IntV 3]] \<and>
   map (\<lambda>e. map tag_id (art_tags e)) (Articles_set_data False exampleRows) =
     [[IntV 7], [IntV 8]] \<and>
   map (\<lambda>e. (author_id (art_author e), art_answers e, art_votes e))
     (Articles_set_data False exampleRows) = [(IntV 4, Num 2, Num 4), (IntV 6, Num 0, Num 0)] \<and>
   first_seen (map (\<lambda>r. getv r ''id'') exampleRows) = [IntV 1, IntV 2] \<and>
   card ((\<lambda>r. getv r ''id'') ` set exampleRows) = 2"
proof -
  note t = Articles_set_data_denormalizes[of False exampleRows]
  have v: "Articles_set_data False exampleRows =
     [\<lparr>art_id = IntV 1, art_title = TextV ''a'', art_abstract = None, art_createdAt = Undefined,
       art_author = \<lparr>author_id = IntV 4, author_displayName = Undefined, author_hash = Undefined\<rparr>,
       art_hubs = [\<lparr>hub_id = IntV 3, hub_name = Undefined\<rparr>, \<lparr>hub_id = IntV 5, hub_name = Undefined\<rparr>],
       art_tags = [\<lparr>tag_id = IntV 7, tag_name = Undefined, tag_hub = Undefined\<rparr>],
       art_answers = Num 2, art_votes = Num 4\<rparr>,
      \<lparr>art_id = IntV 2, art_title = TextV ''b'', art_abstract = None, art_createdAt = Undefined,
       art_author = \<lparr>author_id = IntV 6, author_displayName = Undefined, author_hash = Undefined\<rparr>,
       art_hubs = [\<lparr>hub_id = IntV 3, hub_name = Undefined\<rparr>],
       art_tags = [\<lparr>tag_id = IntV 8, tag_name = Undefined, tag_hub = Undefined\<rparr>],
       art_answers = Num 0, art_votes = Num 0\<rparr>]"
    by code_simp
  from t show ?thesis unfolding v by simp
qed




section \<open>Request normalisation\<close>

lemma orNum_cases: "orNum a (Num d) = (if a = NaN \<or> a = Num 0 then Num d else a)"
  by (cases a) (auto simp: orNum_def truthyNum_def)

text \<open>
  C10. The limit handed to \<open>new Articles\<close> is never \<open>NaN\<close> and never 0: a requested limit
  that parses to 0 or \<open>NaN\<close> (the explicit value 0 included) has become 10, and an offset
  that parses to 0 or \<open>NaN\<close> has become 0; any other parse is passed on as it is.
\<close>

theorem all_data_limit_offset:
  "in_limit (all_data body) \<noteq> NaN \<and> in_limit (all_data body) \<noteq> Num 0 \<and>
   (parseInt (body_limit body) = NaN \<or> parseInt (body_limit body) = Num 0
      \<longrightarrow> in_limit (all_data body) = Num 10) \<and>
   (parseInt (body_offset body) = NaN \<or> parseInt (body_offset body) = Num 0
      \<longrightarrow> in_offset (all_data body) = Num 0) \<and>
   (parseInt (body_limit body) \<noteq> NaN \<and> parseInt (body_limit body) \<noteq> Num 0
      \<longrightarrow> in_limit (all_data body) = parseInt (body_limit body)) \<and>
   (parseInt (body_offset body) \<noteq> NaN \<and> parseInt (body_offset body) \<noteq> Num 0
      \<longrightarrow> in_offset (all_data body) = parseInt (body_offset body))"
  by (auto simp: all_data_def orNum_cases ARTICLES_LIMIT_def)

theorem all_data_limit_offset_witness:
  "parseInt (body_limit zeroLimitBody) = Num 0 \<and> parseInt (body_offset zeroLimitBody) = NaN \<and>
   in_limit (all_data zeroLimitBody) = Num 10 \<and> in_offset (all_data zeroLimitBody) = Num 0"
proof -
  have l: "parseInt (body_limit zeroLimitBody) = Num 0" by code_simp
  have o: "parseInt (body_offset zeroLimitBody) = NaN" by code_simp
  from all_data_limit_offset[of zeroLimitBody] l o show ?thesis by simp
qed

section \<open>Ordering and search text\<close>

text \<open>
  C6. When the caller's sorts omit the default dimension (\<open>createdAt\<close> for Articles, the
  articles count for Tags), the order list is the caller's keys, then the default
  dimension descending, then the rank key if search is active: without search the
  default key is the last key, with search it is the last but one. Whenever search is
  active the last key is \<open>"rank"\<close> descending.
\<close>

theorem order_default_then_rank:
  "(s_createdAt (sorts a) = None \<longrightarrow>
      Articles_order a =
        pushIf (s_title (sorts a)) A_title @ pushIf (s_author (sorts a)) A_user_displayName @
        pushIf (s_answers (sorts a)) A_answers @ pushIf (s_votes (sorts a)) A_votes @
        [(A_createdAt, DESC)] @ (if searching a then [(Rank, DESC)] else []) \<and>
      (if searching a then last (butlast (Articles_order a)) else last (Articles_order a)) =
        (A_createdAt, DESC)) \<and>
   (searching a \<longrightarrow> last (Articles_order a) = (Rank, DESC)) \<and>
   (ts_articles (sorts t) = None \<longrightarrow>
      Tags_order t =
        pushIf (ts_name (sorts t)) T_name @ [(T_articles, DESC)] @
        (if searching t then [(Rank, DESC)] else []) \<and>
      (if searching t then last (butlast (Tags_order t)) else last (Tags_order t)) =
        (T_articles, DESC)) \<and>
   (searching t \<longrightarrow> last (Tags_order t) = (Rank, DESC))"
  by (simp add: Articles_order_def Tags_order_def butlast_append split: option.splits)

theorem order_default_then_rank_witness:
  "s_createdAt (sorts sampleArticles) = None \<and> searching sampleArticles \<and>
   Articles_order sampleArticles = [(A_title, ASC), (A_createdAt, DESC), (Rank, DESC)] \<and>
   ts_articles (sorts sampleTags) = None \<and> searching sampleTags \<and>
   Tags_order sampleTags = [(T_name, ASC), (T_articles, DESC), (Rank, DESC)]"
  using order_default_then_rank[of sampleArticles sampleTags]
  by (simp add: sampleArticles_def sampleTags_def searching_def pushIf_def)

text \<open>
  C7. For a search text \<open>s\<close> that is truthy (not empty), \<open>tsQuery\<close> is the fragment
  \<open>plainto_tsquery('s')\<close> with \<open>s\<close> itself between the quotes. That text is the operation
  of the search descriptor in \<open>where\<close> and stands inside the rank column of the page
  statement, for Articles and for Tags; nothing of \<open>s\<close> is escaped or bound.
\<close>

theorem search_text_interpolated:
  \<open>search a = Some s \<and> search t = Some s \<and> s \<noteq> [] \<longrightarrow>
     tsQuery a = ''plainto_tsquery('' @ [CHR 0x27] @ s @ [CHR 0x27] @ '')'' \<and>
     tsQuery t = ''plainto_tsquery('' @ [CHR 0x27] @ s @ [CHR 0x27] @ '')'' \<and>
     rankCol A_tsv a =
       ''TS_RANK("Article"."tsv", plainto_tsquery('' @ [CHR 0x27] @ s @ [CHR 0x27] @ ''))'' \<and>
     rankCol T_tsv t =
       ''TS_RANK("Tag"."tsv", plainto_tsquery('' @ [CHR 0x27] @ s @ [CHR 0x27] @ ''))'' \<and>
     Articles_pageStatement a =
       ArticlesPage
         \<lparr>p_extended = extended a,
          p_rank = ''TS_RANK("Article"."tsv", plainto_tsquery('' @ [CHR 0x27] @ s @ [CHR 0x27] @
                   '')) AS "rank",'',
          p_userWhere = Articles_userWhere a, p_hubWhere = Articles_hubWhere a,
          p_tagWhere = Articles_tagWhere a,
          p_where = pushIf (f_id (filters a)) A_id @ pushIf (f_title (filters a)) A_title @
                    pushIf (f_createdAt (filters a)) (DATE A_createdAt) @
                    [(A_tsv, TsMatch (''plainto_tsquery('' @ [CHR 0x27] @ s @ [CHR 0x27] @ '')''))],
          p_having = Articles_having a, p_order = Articles_order a,
          p_offset = offset a, p_limit = limit a\<rparr> \<and>
     Tags_pageStatement t =
       TagsPage
         \<lparr>tp_rank = ''TS_RANK("Tag"."tsv", plainto_tsquery('' @ [CHR 0x27] @ s @ [CHR 0x27] @
                    '')) AS "rank",'',
          tp_where = pushIf (tf_id (filters t)) T_id @ pushIf (tf_name (filters t)) T_name @
                     pushIf (tf_hub (filters t)) T_hub @
                     [(T_tsv, TsMatch (''plainto_tsquery('' @ [CHR 0x27] @ s @ [CHR 0x27] @ '')''))],
          tp_having = Tags_having t, tp_order = Tags_order t,
          tp_offset = offset t, tp_limit = limit t\<rparr> \<and>
     sublist s (tsQuery a) \<and> sublist s (rankCol A_tsv a) \<and>
     sublist s (tsQuery t) \<and> sublist s (rankCol T_tsv t)\<close>
proof (intro impI, elim conjE)
  assume a: "search a = Some s" and t: "search t = Some s" and s: "s \<noteq> []"
  have sa: "searching a" "searchText a = s" using a s by (simp_all add: searching_def searchText_def)
  have st: "searching t" "searchText t = s" using t s by (simp_all add: searching_def searchText_def)
  have qa: "tsQuery a = ''plainto_tsquery('' @ [CHR 0x27] @ s @ [CHR 0x27] @ '')''"
    using sa by (simp add: tsQuery_def)
  have qt: "tsQuery t = ''plainto_tsquery('' @ [CHR 0x27] @ s @ [CHR 0x27] @ '')''"
    using st by (simp add: tsQuery_def)
  have ra: \<open>rankCol A_tsv a =
       ''TS_RANK("Article"."tsv", plainto_tsquery('' @ [CHR 0x27] @ s @ [CHR 0x27] @ ''))''\<close>
    using sa by (simp add: rankCol_def qa)
  have rt: \<open>rankCol T_tsv t =
       ''TS_RANK("Tag"."tsv", plainto_tsquery('' @ [CHR 0x27] @ s @ [CHR 0x27] @ ''))''\<close>
    using st by (simp add: rankCol_def qt)
  have sub1: "sublist s (tsQuery a)" "sublist s (tsQuery t)"
    unfolding qa qt by (auto simp: sublist_def intro: exI[of _ "''plainto_tsquery('' @ [CHR 0x27]"])
  have sub2: "sublist s (rankCol A_tsv a)"
    unfolding ra sublist_def
    by (rule exI[of _ \<open>''TS_RANK("Article"."tsv", plainto_tsquery('' @ [CHR 0x27]\<close>]) simp
  have sub3: "sublist s (rankCol T_tsv t)"
    unfolding rt sublist_def
    by (rule exI[of _ \<open>''TS_RANK("Tag"."tsv", plainto_tsquery('' @ [CHR 0x27]\<close>]) simp
  have pa: "Articles_pageStatement a = ArticlesPage
         \<lparr>p_extended = extended a,
          p_rank = rankCol A_tsv a @ '' AS '' @ [CHR 0x22] @ ''rank'' @ [CHR 0x22] @ '','',
          p_userWhere = Articles_userWhere a, p_hubWhere = Articles_hubWhere a,
          p_tagWhere = Articles_tagWhere a,
          p_where = pushIf (f_id (filters a)) A_id @ pushIf (f_title (filters a)) A_title @
                    pushIf (f_createdAt (filters a)) (DATE A_createdAt) @
                    [(A_tsv, TsMatch (tsQuery a))],
          p_having = Articles_having a, p_order = Articles_order a,
          p_offset = offset a, p_limit = limit a\<rparr>"
    using sa by (simp add: Articles_pageStatement_def rankItem_def Articles_where_def searchDescriptor_def)
  have pt: "Tags_pageStatement t = TagsPage
         \<lparr>tp_rank = rankCol T_tsv t @ '' AS '' @ [CHR 0x22] @ ''rank'' @ [CHR 0x22] @ '','',
          tp_where = pushIf (tf_id (filters t)) T_id @ pushIf (tf_name (filters t)) T_name @
                     pushIf (tf_hub (filters t)) T_hub @ [(T_tsv, TsMatch (tsQuery t))],
          tp_having = Tags_having t, tp_order = Tags_order t,
          tp_offset = offset t, tp_limit = limit t\<rparr>"
    using st by (simp add: Tags_pageStatement_def rankItem_def Tags_where_def searchDescriptor_def)
  show \<open>tsQuery a = ''plainto_tsquery('' @ [CHR 0x27] @ s @ [CHR 0x27] @ '')'' \<and>
     tsQuery t = ''plainto_tsquery('' @ [CHR 0x27] @ s @ [CHR 0x27] @ '')'' \<and>
     rankCol A_tsv a =
       ''TS_RANK("Article"."tsv", plainto_tsquery('' @ [CHR 0x27] @ s @ [CHR 0x27] @ ''))'' \<and>
     rankCol T_tsv t =
       ''TS_RANK("Tag"."tsv", plainto_tsquery('' @ [CHR 0x27] @ s @ [CHR 0x27] @ ''))'' \<and>
     Articles_pageStatement a =
       ArticlesPage
         \<lparr>p_extended = extended a,
          p_rank = ''TS_RANK("Article"."tsv", plainto_tsquery('' @ [CHR 0x27] @ s @ [CHR 0x27] @
                   '')) AS "rank",'',
          p_userWhere = Articles_userWhere a, p_hubWhere = Articles_hubWhere a,
          p_tagWhere = Articles_tagWhere a,
          p_where = pushIf (f_id (filters a)) A_id @ pushIf (f_title (filters a)) A_title @
                    pushIf (f_createdAt (filters a)) (DATE A_createdAt) @
                    [(A_tsv, TsMatch (''plainto_tsquery('' @ [CHR 0x27] @ s @ [CHR 0x27] @ '')''))],
          p_having = Articles_having a, p_order = Articles_order a,
          p_offset = offset a, p_limit = limit a\<rparr> \<and>
     Tags_pageStatement t =
       TagsPage
         \<lparr>tp_rank = ''TS_RANK("Tag"."tsv", plainto_tsquery('' @ [CHR 0x27] @ s @ [CHR 0x27] @
                    '')) AS "rank",'',
          tp_where = pushIf (tf_id (filters t)) T_id @ pushIf (tf_name (filters t)) T_name @
                     pushIf (tf_hub (filters t)) T_hub @
                     [(T_tsv, TsMatch (''plainto_tsquery('' @ [CHR 0x27] @ s @ [CHR 0x27] @ '')''))],
          tp_having = Tags_having t, tp_order = Tags_order t,
          tp_offset = offset t, tp_limit = limit t\<rparr> \<and>
     sublist s (tsQuery a) \<and> sublist s (rankCol A_tsv a) \<and>
     sublist s (tsQuery t) \<and> sublist s (rankCol T_tsv t)\<close>
    using sub1 sub2 sub3 by (simp add: pa pt ra rt qa qt)
qed

theorem search_text_interpolated_witness:
  \<open>search sampleArticles = Some ''foo'' \<and> search sampleTags = Some ''foo'' \<and>
   tsQuery sampleArticles = ''plainto_tsquery('' @ [CHR 0x27] @ ''foo'' @ [CHR 0x27] @ '')'' \<and>
   rankCol T_tsv sampleTags =
     ''TS_RANK("Tag"."tsv", plainto_tsquery('' @ [CHR 0x27] @ ''foo'' @ [CHR 0x27] @ ''))'' \<and>
   Articles_where sampleArticles =
     [(A_tsv, TsMatch (''plainto_tsquery('' @ [CHR 0x27] @ ''foo'' @ [CHR 0x27] @ '')''))]\<close>
proof -
  have s: "search sampleArticles = Some ''foo''" "search sampleTags = Some ''foo''"
    by (simp_all add: sampleArticles_def sampleTags_def)
  have w: "Articles_where sampleArticles = [(A_tsv, TsMatch (tsQuery sampleArticles))]"
    by (simp add: Articles_where_def searchDescriptor_def searching_def pushIf_def
        sampleArticles_def noArticleFilters_def)
  from search_text_interpolated[of sampleArticles "''foo''" sampleTags] s w
  show ?thesis by simp
qed

section \<open>\<open>setData\<close>: errors and repetition\<close>

lemma Articles_statements_kept:
  "Articles_pageStatement (l\<lparr>timings := ts, dataProxy := d\<rparr>) = Articles_pageStatement l"
  "Articles_totalStatement (l\<lparr>timings := ts, dataProxy := d\<rparr>) = Articles_totalStatement l"
  "Articles_pageStatement (l\<lparr>timings := ts, totalRaw := r\<rparr>) = Articles_pageStatement l"
  "Articles_totalStatement (l\<lparr>timings := ts, totalRaw := r\<rparr>) = Articles_totalStatement l"
  by (simp_all add: Articles_pageStatement_def Articles_totalStatement_def Articles_userWhere_def
      Articles_hubWhere_def Articles_tagWhere_def Articles_having_def Articles_where_def
      Articles_order_def rankItem_def rankCol_def searchDescriptor_def searching_def tsQuery_def
      searchText_def)

lemma Tags_statements_kept:
  "Tags_pageStatement (l\<lparr>timings := ts, dataProxy := d\<rparr>) = Tags_pageStatement l"
  "Tags_totalStatement (l\<lparr>timings := ts, dataProxy := d\<rparr>) = Tags_totalStatement l"
  "Tags_pageStatement (l\<lparr>timings := ts, totalRaw := r\<rparr>) = Tags_pageStatement l"
  "Tags_totalStatement (l\<lparr>timings := ts, totalRaw := r\<rparr>) = Tags_totalStatement l"
  by (simp_all add: Tags_pageStatement_def Tags_totalStatement_def Tags_having_def Tags_where_def
      Tags_order_def rankItem_def rankCol_def searchDescriptor_def searching_def tsQuery_def
      searchText_def)

text \<open>
  C8. If the page statement raises \<open>e\<close>, \<open>setData\<close> throws \<open>e\<close> itself and the page statement
  is the only statement issued. If the page statement succeeds and the count statement
  raises \<open>e\<close>, \<open>setData\<close> throws \<open>e\<close> itself and the statements issued are the page statement
  and the count statement, each once. This holds for Articles and for Tags, whatever the
  execution interface does.
\<close>

theorem setData_throws_the_error:
  "(fst (exec w (Articles_pageStatement a)) = Inl e \<longrightarrow>
      fst (Articles_setData (logged exec) a (w, [])) = Inl e \<and>
      snd (snd (snd (Articles_setData (logged exec) a (w, [])))) = [Articles_pageStatement a]) \<and>
   (fst (exec w (Articles_pageStatement a)) = Inr (rows, n) \<and>
    fst (exec (snd (exec w (Articles_pageStatement a))) (Articles_totalStatement a)) = Inl e \<longrightarrow>
      fst (Articles_setData (logged exec) a (w, [])) = Inl e \<and>
      snd (snd (snd (Articles_setData (logged exec) a (w, [])))) =
        [Articles_pageStatement a, Articles_totalStatement a]) \<and>
   (fst (exec w (Tags_pageStatement t)) = Inl e \<longrightarrow>
      fst (Tags_setData (logged exec) t (w, [])) = Inl e \<and>
      snd (snd (snd (Tags_setData (logged exec) t (w, [])))) = [Tags_pageStatement t]) \<and>
   (fst (exec w (Tags_pageStatement t)) = Inr (rows, n) \<and>
    fst (exec (snd (exec w (Tags_pageStatement t))) (Tags_totalStatement t)) = Inl e \<longrightarrow>
      fst (Tags_setData (logged exec) t (w, [])) = Inl e \<and>
      snd (snd (snd (Tags_setData (logged exec) t (w, [])))) =
        [Tags_pageStatement t, Tags_totalStatement t])"
proof -
  have a1: "fst (Articles_setData (logged exec) a (w, [])) = Inl e \<and>
      snd (snd (snd (Articles_setData (logged exec) a (w, [])))) = [Articles_pageStatement a]"
    if "fst (exec w (Articles_pageStatement a)) = Inl e"
    using that by (cases "exec w (Articles_pageStatement a)") (simp add: Articles_setData_def logged_def)
  have a2: "fst (Articles_setData (logged exec) a (w, [])) = Inl e \<and>
      snd (snd (snd (Articles_setData (logged exec) a (w, [])))) =
        [Articles_pageStatement a, Articles_totalStatement a]"
    if "fst (exec w (Articles_pageStatement a)) = Inr (rows, n)"
      and "fst (exec (snd (exec w (Articles_pageStatement a))) (Articles_totalStatement a)) = Inl e"
    using that
    by (cases "exec w (Articles_pageStatement a)";
        cases "exec (snd (exec w (Articles_pageStatement a))) (Articles_totalStatement a)")
       (simp add: Articles_setData_def logged_def addTiming_def Articles_statements_kept)
  have t1: "fst (Tags_setData (logged exec) t (w, [])) = Inl e \<and>
      snd (snd (snd (Tags_setData (logged exec) t (w, [])))) = [Tags_pageStatement t]"
    if "fst (exec w (Tags_pageStatement t)) = Inl e"
    using that by (cases "exec w (Tags_pageStatement t)") (simp add: Tags_setData_def logged_def)
  have t2: "fst (Tags_setData (logged exec) t (w, [])) = Inl e \<and>
      snd (snd (snd (Tags_setData (logged exec) t (w, [])))) =
        [Tags_pageStatement t, Tags_totalStatement t]"
    if "fst (exec w (Tags_pageStatement t)) = Inr (rows, n)"
      and "fst (exec (snd (exec w (Tags_pageStatement t))) (Tags_totalStatement t)) = Inl e"
    using that
    by (cases "exec w (Tags_pageStatement t)";
        cases "exec (snd (exec w (Tags_pageStatement t))) (Tags_totalStatement t)")
       (simp add: Tags_setData_def logged_def addTiming_def Tags_statements_kept)
  from a1 a2 t1 t2 show ?thesis by blast
qed

theorem setData_throws_the_error_witness:
  "fst (alwaysFails 0 (Articles_pageStatement sampleArticles)) = Inl ''connection refused'' \<and>
   fst (Articles_setData (logged alwaysFails) sampleArticles (0, [])) = Inl ''connection refused'' \<and>
   snd (snd (snd (Articles_setData (logged alwaysFails) sampleArticles (0, [])))) =
     [Articles_pageStatement sampleArticles] \<and>
   fst (countFails 0 (Tags_pageStatement sampleTags)) = Inr ([], 0) \<and>
   fst (countFails (snd (countFails 0 (Tags_pageStatement sampleTags))) (Tags_totalStatement sampleTags)) =
     Inl ''statement timeout'' \<and>
   fst (Tags_setData (logged countFails) sampleTags (0, [])) = Inl ''statement timeout'' \<and>
   snd (snd (snd (Tags_setData (logged countFails) sampleTags (0, [])))) =
     [Tags_pageStatement sampleTags, Tags_totalStatement sampleTags]"
proof -
  have f1: "fst (alwaysFails 0 (Articles_pageStatement sampleArticles)) = Inl ''connection refused''"
    by (simp add: alwaysFails_def)
  have f2: "fst (countFails 0 (Tags_pageStatement sampleTags)) = Inr ([], 0)"
    by (simp add: countFails_def Tags_pageStatement_def)
  have f3: "fst (countFails (snd (countFails 0 (Tags_pageStatement sampleTags)))
              (Tags_totalStatement sampleTags)) = Inl ''statement timeout''"
    by (simp add: countFails_def Tags_totalStatement_def)
  from setData_throws_the_error[of alwaysFails 0 sampleArticles "''connection refused''" "[]" 0 sampleTags]
    f1
  have g1: "fst (Articles_setData (logged alwaysFails) sampleArticles (0, [])) = Inl ''connection refused'' \<and>
   snd (snd (snd (Articles_setData (logged alwaysFails) sampleArticles (0, [])))) =
     [Articles_pageStatement sampleArticles]" by blast
  from setData_throws_the_error[of countFails 0 sampleArticles "''statement timeout''" "[]" 0 sampleTags]
    f2 f3
  have g2: "fst (Tags_setData (logged countFails) sampleTags (0, [])) = Inl ''statement timeout'' \<and>
   snd (snd (snd (Tags_setData (logged countFails) sampleTags (0, [])))) =
     [Tags_pageStatement sampleTags, Tags_totalStatement sampleTags]" by blast
  from f1 f2 f3 g1 g2 show ?thesis by blast
qed

lemma answerOf_Inl: "answerOf r = Inl e \<Longrightarrow> r = Inl e"
  by (cases r) (auto simp: answerOf_def)

lemma answerOf_Inr: "answerOf r = Inr rows \<Longrightarrow> \<exists>n. r = Inr (rows, n)"
  by (cases r) (auto simp: answerOf_def)

lemma answerOf_simps: "answerOf (Inl e) = Inl e" "answerOf (Inr (rows, n)) = Inr rows"
  by (simp_all add: answerOf_def)

lemma Articles_setData_page_fails:
  "exec w (Articles_pageStatement a) = (Inl e, w1) \<Longrightarrow> Articles_setData exec a w = (Inl e, a, w1)"
  by (simp add: Articles_setData_def)

lemma Articles_setData_total_fails:
  "exec w (Articles_pageStatement a) = (Inr (rows, n), w1) \<Longrightarrow>
   exec w1 (Articles_totalStatement a) = (Inl e, w2) \<Longrightarrow>
   Articles_setData exec a w =
     (Inl e, a\<lparr>timings := timings a @ [n], dataProxy := Articles_set_data (extended a) rows\<rparr>, w2)"
  by (simp add: Articles_setData_def addTiming_def Articles_statements_kept)

lemma Articles_setData_succeeds:
  "exec w (Articles_pageStatement a) = (Inr (rows, n), w1) \<Longrightarrow>
   exec w1 (Articles_totalStatement a) = (Inr (raw, n2), w2) \<Longrightarrow>
   Articles_setData exec a w =
     (Inr True, a\<lparr>timings := timings a @ [n, n2], dataProxy := Articles_set_data (extended a) rows,
                   totalRaw := raw\<rparr>, w2)"
  by (simp add: Articles_setData_def addTiming_def Articles_statements_kept)

lemma Articles_setData_twice:
  assumes same: "\<And>w w' s. answerOf (fst (exec w s)) = answerOf (fst (exec w' s))"
  shows "fst (Articles_setData exec (fst (snd (Articles_setData exec a w))) (snd (snd (Articles_setData exec a w)))) =
           fst (Articles_setData exec a w) \<and>
         dataProxy (fst (snd (Articles_setData exec (fst (snd (Articles_setData exec a w))) (snd (snd (Articles_setData exec a w)))))) =
           dataProxy (fst (snd (Articles_setData exec a w))) \<and>
         totalRaw (fst (snd (Articles_setData exec (fst (snd (Articles_setData exec a w))) (snd (snd (Articles_setData exec a w)))))) =
           totalRaw (fst (snd (Articles_setData exec a w)))"
proof -
  have again_page: "\<exists>n' w'. exec v (Articles_pageStatement a) = (Inr (rows, n'), w')"
    if "exec w (Articles_pageStatement a) = (Inr (rows, n), w1)" for v rows n w1
  proof -
    have "answerOf (fst (exec v (Articles_pageStatement a))) = Inr rows"
      using same[of v "Articles_pageStatement a" w] that by (simp add: answerOf_simps)
    from answerOf_Inr[OF this] show ?thesis by (cases "exec v (Articles_pageStatement a)") auto
  qed
  obtain r1 wA where p1: "exec w (Articles_pageStatement a) = (r1, wA)" by (cases "exec w (Articles_pageStatement a)")
  show ?thesis
  proof (cases r1)
    case (Inl e)
    with p1 have first: "Articles_setData exec a w = (Inl e, a, wA)"
      by (simp add: Articles_setData_page_fails)
    have "answerOf (fst (exec wA (Articles_pageStatement a))) = Inl e"
      using same[of wA "Articles_pageStatement a" w] p1 Inl by (simp add: answerOf_simps)
    from answerOf_Inl[OF this] obtain wB where "exec wA (Articles_pageStatement a) = (Inl e, wB)"
      by (cases "exec wA (Articles_pageStatement a)") auto
    then have "Articles_setData exec a wA = (Inl e, a, wB)" by (rule Articles_setData_page_fails[of exec wA a])
    with first show ?thesis by simp
  next
    case (Inr x)
    obtain rows n where x: "x = (rows, n)" by (cases x)
    with p1 Inr have p1': "exec w (Articles_pageStatement a) = (Inr (rows, n), wA)" by simp
    obtain r3 wC where p3: "exec wA (Articles_totalStatement a) = (r3, wC)" by (cases "exec wA (Articles_totalStatement a)")
    show ?thesis
    proof (cases r3)
      case (Inl e)
      define l1 where "l1 = a\<lparr>timings := timings a @ [n], dataProxy := Articles_set_data (extended a) rows\<rparr>"
      have l1s: "Articles_pageStatement l1 = Articles_pageStatement a" "Articles_totalStatement l1 = Articles_totalStatement a"
        "extended l1 = extended a" by (simp_all add: l1_def Articles_statements_kept)
      from p3 Inl have first: "Articles_setData exec a w = (Inl e, l1, wC)"
        unfolding l1_def by (simp add: Articles_setData_total_fails[of exec w a, OF p1'])
      from again_page[OF p1', of wC] obtain n' wD where
        p4: "exec wC (Articles_pageStatement l1) = (Inr (rows, n'), wD)" by (auto simp: l1s)
      have "answerOf (fst (exec wD (Articles_totalStatement a))) = Inl e"
        using same[of wD "Articles_totalStatement a" wA] p3 Inl by (simp add: answerOf_simps)
      from answerOf_Inl[OF this] obtain wE where p5: "exec wD (Articles_totalStatement l1) = (Inl e, wE)"
        by (cases "exec wD (Articles_totalStatement a)") (auto simp: l1s)
      from Articles_setData_total_fails[of exec wC l1, OF p4 p5] first show ?thesis
        by (simp add: l1s) (simp add: l1_def)
    next
      case (Inr y)
      obtain raw n2 where y: "y = (raw, n2)" by (cases y)
      define l1 where "l1 = a\<lparr>timings := timings a @ [n, n2], dataProxy := Articles_set_data (extended a) rows, totalRaw := raw\<rparr>"
      have l1s: "Articles_pageStatement l1 = Articles_pageStatement a" "Articles_totalStatement l1 = Articles_totalStatement a"
        "extended l1 = extended a"
        by (simp_all add: l1_def Articles_pageStatement_def Articles_totalStatement_def Articles_userWhere_def
      Articles_hubWhere_def Articles_tagWhere_def Articles_having_def Articles_where_def
      Articles_order_def rankItem_def rankCol_def searchDescriptor_def searching_def tsQuery_def
      searchText_def)
      from p3 Inr y have first: "Articles_setData exec a w = (Inr True, l1, wC)"
        unfolding l1_def by (simp add: Articles_setData_succeeds[of exec w a, OF p1'])
      from again_page[OF p1', of wC] obtain n' wD where
        p4: "exec wC (Articles_pageStatement l1) = (Inr (rows, n'), wD)" by (auto simp: l1s)
      have "answerOf (fst (exec wD (Articles_totalStatement a))) = Inr raw"
        using same[of wD "Articles_totalStatement a" wA] p3 Inr y by (simp add: answerOf_simps)
      from answerOf_Inr[OF this] obtain n3 wE where p5: "exec wD (Articles_totalStatement l1) = (Inr (raw, n3), wE)"
        by (cases "exec wD (Articles_totalStatement a)") (auto simp: l1s)
      from Articles_setData_succeeds[of exec wC l1, OF p4 p5] first show ?thesis
        by (simp add: l1s) (simp add: l1_def)
    qed
  qed
qed
lemma Tags_setData_page_fails:
  "exec w (Tags_pageStatement a) = (Inl e, w1) \<Longrightarrow> Tags_setData exec a w = (Inl e, a, w1)"
  by (simp add: Tags_setData_def)

lemma Tags_setData_total_fails:
  "exec w (Tags_pageStatement a) = (Inr (rows, n), w1) \<Longrightarrow>
   exec w1 (Tags_totalStatement a) = (Inl e, w2) \<Longrightarrow>
   Tags_setData exec a w =
     (Inl e, a\<lparr>timings := timings a @ [n], dataProxy := Tags_set_data rows\<rparr>, w2)"
  by (simp add: Tags_setData_def addTiming_def Tags_statements_kept)

lemma Tags_setData_succeeds:
  "exec w (Tags_pageStatement a) = (Inr (rows, n), w1) \<Longrightarrow>
   exec w1 (Tags_totalStatement a) = (Inr (raw, n2), w2) \<Longrightarrow>
   Tags_setData exec a w =
     (Inr (), a\<lparr>timings := timings a @ [n, n2], dataProxy := Tags_set_data rows,
                   totalRaw := raw\<rparr>, w2)"
  by (simp add: Tags_setData_def addTiming_def Tags_statements_kept)

lemma Tags_setData_twice:
  assumes same: "\<And>w w' s. answerOf (fst (exec w s)) = answerOf (fst (exec w' s))"
  shows "fst (Tags_setData exec (fst (snd (Tags_setData exec a w))) (snd (snd (Tags_setData exec a w)))) =
           fst (Tags_setData exec a w) \<and>
         dataProxy (fst (snd (Tags_setData exec (fst (snd (Tags_setData exec a w))) (snd (snd (Tags_setData exec a w)))))) =
           dataProxy (fst (snd (Tags_setData exec a w))) \<and>
         totalRaw (fst (snd (Tags_setData exec (fst (snd (Tags_setData exec a w))) (snd (snd (Tags_setData exec a w)))))) =
           totalRaw (fst (snd (Tags_setData exec a w)))"
proof -
  have again_page: "\<exists>n' w'. exec v (Tags_pageStatement a) = (Inr (rows, n'), w')"
    if "exec w (Tags_pageStatement a) = (Inr (rows, n), w1)" for v rows n w1
  proof -
    have "answerOf (fst (exec v (Tags_pageStatement a))) = Inr rows"
      using same[of v "Tags_pageStatement a" w] that by (simp add: answerOf_simps)
    from answerOf_Inr[OF this] show ?thesis by (cases "exec v (Tags_pageStatement a)") auto
  qed
  obtain r1 wA where p1: "exec w (Tags_pageStatement a) = (r1, wA)" by (cases "exec w (Tags_pageStatement a)")
  show ?thesis
  proof (cases r1)
    case (Inl e)
    with p1 have first: "Tags_setData exec a w = (Inl e, a, wA)"
      by (simp add: Tags_setData_page_fails)
    have "answerOf (fst (exec wA (Tags_pageStatement a))) = Inl e"
      using same[of wA "Tags_pageStatement a" w] p1 Inl by (simp add: answerOf_simps)
    from answerOf_Inl[OF this] obtain wB where "exec wA (Tags_pageStatement a) = (Inl e, wB)"
      by (cases "exec wA (Tags_pageStatement a)") auto
    then have "Tags_setData exec a wA = (Inl e, a, wB)" by (rule Tags_setData_page_fails[of exec wA a])
    with first show ?thesis by simp
  next
    case (Inr x)
    obtain rows n where x: "x = (rows, n)" by (cases x)
    with p1 Inr have p1': "exec w (Tags_pageStatement a) = (Inr (rows, n), wA)" by simp
    obtain r3 wC where p3: "exec wA (Tags_totalStatement a) = (r3, wC)" by (cases "exec wA (Tags_totalStatement a)")
    show ?thesis
    proof (cases r3)
      case (Inl e)
      define l1 where "l1 = a\<lparr>timings := timings a @ [n], dataProxy := Tags_set_data rows\<rparr>"
      have l1s: "Tags_pageStatement l1 = Tags_pageStatement a" "Tags_totalStatement l1 = Tags_totalStatement a"
        by (simp_all add: l1_def Tags_statements_kept)
      from p3 Inl have first: "Tags_setData exec a w = (Inl e, l1, wC)"
        unfolding l1_def by (simp add: Tags_setData_total_fails[of exec w a, OF p1'])
      from again_page[OF p1', of wC] obtain n' wD where
        p4: "exec wC (Tags_pageStatement l1) = (Inr (rows, n'), wD)" by (auto simp: l1s)
      have "answerOf (fst (exec wD (Tags_totalStatement a))) = Inl e"
        using same[of wD "Tags_totalStatement a" wA] p3 Inl by (simp add: answerOf_simps)
      from answerOf_Inl[OF this] obtain wE where p5: "exec wD (Tags_totalStatement l1) = (Inl e, wE)"
        by (cases "exec wD (Tags_totalStatement a)") (auto simp: l1s)
      from Tags_setData_total_fails[of exec wC l1, OF p4 p5] first show ?thesis
        by (simp add: l1s) (simp add: l1_def)
    next
      case (Inr y)
      obtain raw n2 where y: "y = (raw, n2)" by (cases y)
      define l1 where "l1 = a\<lparr>timings := timings a @ [n, n2], dataProxy := Tags_set_data rows, totalRaw := raw\<rparr>"
      have l1s: "Tags_pageStatement l1 = Tags_pageStatement a" "Tags_totalStatement l1 = Tags_totalStatement a"
        by (simp_all add: l1_def Tags_pageStatement_def Tags_totalStatement_def Tags_having_def Tags_where_def
      Tags_order_def rankItem_def rankCol_def searchDescriptor_def searching_def tsQuery_def
      searchText_def)
      from p3 Inr y have first: "Tags_setData exec a w = (Inr (), l1, wC)"
        unfolding l1_def by (simp add: Tags_setData_succeeds[of exec w a, OF p1'])
      from again_page[OF p1', of wC] obtain n' wD where
        p4: "exec wC (Tags_pageStatement l1) = (Inr (rows, n'), wD)" by (auto simp: l1s)
      have "answerOf (fst (exec wD (Tags_totalStatement a))) = Inr raw"
        using same[of wD "Tags_totalStatement a" wA] p3 Inr y by (simp add: answerOf_simps)
      from answerOf_Inr[OF this] obtain n3 wE where p5: "exec wD (Tags_totalStatement l1) = (Inr (raw, n3), wE)"
        by (cases "exec wD (Tags_totalStatement a)") (auto simp: l1s)
      from Tags_setData_succeeds[of exec wC l1, OF p4 p5] first show ?thesis
        by (simp add: l1s) (simp add: l1_def)
    qed
  qed
qed
text \<open>
  C9. Let the storage be unchanged: whenever a statement is issued it gets the same
  answer (the same rows or the same error; only the duration may differ). Then a second
  \<open>setData\<close> on the list object that the first call left ends as the first did, with
  the same \<open>data\<close> and the same \<open>total\<close>, for Articles and for Tags. The timings grow.
\<close>

theorem setData_twice_same_data_total:
  "(\<forall>w w' s. answerOf (fst (exec w s)) = answerOf (fst (exec w' s))) \<longrightarrow>
     (case Articles_setData exec a w of (r1, l1, w1) \<Rightarrow>
        case Articles_setData exec l1 w1 of (r2, l2, w2) \<Rightarrow>
          r2 = r1 \<and> dataProxy l2 = dataProxy l1 \<and> totalOf l2 = totalOf l1) \<and>
     (case Tags_setData exec t w of (r1, l1, w1) \<Rightarrow>
        case Tags_setData exec l1 w1 of (r2, l2, w2) \<Rightarrow>
          r2 = r1 \<and> dataProxy l2 = dataProxy l1 \<and> totalOf l2 = totalOf l1)"
proof
  assume "\<forall>w w' s. answerOf (fst (exec w s)) = answerOf (fst (exec w' s))"
  then have same: "\<And>w w' s. answerOf (fst (exec w s)) = answerOf (fst (exec w' s))" by blast
  from Articles_setData_twice[of exec a w, OF same] Tags_setData_twice[of exec t w, OF same]
  show "(case Articles_setData exec a w of (r1, l1, w1) \<Rightarrow>
        case Articles_setData exec l1 w1 of (r2, l2, w2) \<Rightarrow>
          r2 = r1 \<and> dataProxy l2 = dataProxy l1 \<and> totalOf l2 = totalOf l1) \<and>
     (case Tags_setData exec t w of (r1, l1, w1) \<Rightarrow>
        case Tags_setData exec l1 w1 of (r2, l2, w2) \<Rightarrow>
          r2 = r1 \<and> dataProxy l2 = dataProxy l1 \<and> totalOf l2 = totalOf l1)"
    by (simp add: split_beta totalOf_def)
qed

lemma fixedAnswers_same:
  "answerOf (fst (fixedAnswers w s)) = answerOf (fst (fixedAnswers w' s))"
  by (cases s) (simp_all add: fixedAnswers_def answerOf_def)

theorem setData_twice_same_data_total_witness:
  "(\<forall>w w' s. answerOf (fst (fixedAnswers w s)) = answerOf (fst (fixedAnswers w' s))) \<and>
   (case Articles_setData fixedAnswers sampleArticles 0 of (r1, l1, w1) \<Rightarrow>
      case Articles_setData fixedAnswers l1 w1 of (r2, l2, w2) \<Rightarrow>
        r1 = Inr True \<and> r2 = r1 \<and> map art_id (dataProxy l1) = [IntV 1, IntV 2] \<and>
        dataProxy l2 = dataProxy l1 \<and> totalOf l1 = Num 2 \<and> totalOf l2 = totalOf l1 \<and>
        timings l1 = [0, 1] \<and> timings l2 = [0, 1, 2, 3])"
proof -
  have h: "\<forall>w w' s. answerOf (fst (fixedAnswers w s)) = answerOf (fst (fixedAnswers w' s))"
    using fixedAnswers_same by blast
  have d: "map art_id (Articles_set_data False exampleRows) = [IntV 1, IntV 2]" by code_simp
  have n: "parseInt (TextV ''2'') = Num 2" by code_simp
  have p: "fixedAnswers w (Articles_pageStatement l) = (Inr (exampleRows, w), Suc w)" for w l
    by (simp add: fixedAnswers_def Articles_pageStatement_def)
  have c: "fixedAnswers w (Articles_totalStatement l) = (Inr ([[(''total'', TextV ''2'')]], w), Suc w)"
    for w l by (simp add: fixedAnswers_def Articles_totalStatement_def)
  have e: "extended sampleArticles = False" "timings sampleArticles = []"
    by (simp_all add: sampleArticles_def)
  note t = setData_twice_same_data_total[of fixedAnswers sampleArticles 0 sampleTags]
  have "case Articles_setData fixedAnswers sampleArticles 0 of (r1, l1, w1) \<Rightarrow>
      case Articles_setData fixedAnswers l1 w1 of (r2, l2, w2) \<Rightarrow>
        r2 = r1 \<and> dataProxy l2 = dataProxy l1 \<and> totalOf l2 = totalOf l1"
    by (rule conjunct1[OF mp[OF t h]])
  then show ?thesis
    using h by (simp add: Articles_setData_succeeds[OF p c] e d n totalOf_def getv_def)
qed

section \<open>Decimal text read back by \<open>parseInt\<close>\<close>

lemma digit_char: "k < 10 \<Longrightarrow> digitOf 10 (''0123456789'' ! k) = Some k"
proof -
  assume "k < 10"
  then consider "k = 0" | "k = 1" | "k = 2" | "k = 3" | "k = 4" | "k = 5" | "k = 6" | "k = 7" | "k = 8" | "k = 9"
    by (simp add: numeral_eq_Suc less_Suc_eq) blast
  then show ?thesis by cases (simp_all add: digitOf_def)
qed

lemma digit_char_props:
  assumes "k < 10"
  shows "isDigit 10 (''0123456789'' ! k)" "\<not> isWhiteSpace (''0123456789'' ! k)"
    "''0123456789'' ! k \<noteq> CHR ''-''" "''0123456789'' ! k \<noteq> CHR ''+''"
    "''0123456789'' ! k \<noteq> CHR ''x''" "''0123456789'' ! k \<noteq> CHR ''X''"
proof -
  from assms consider "k = 0" | "k = 1" | "k = 2" | "k = 3" | "k = 4" | "k = 5" | "k = 6" | "k = 7" | "k = 8" | "k = 9"
    by (simp add: numeral_eq_Suc less_Suc_eq) blast
  then show "isDigit 10 (''0123456789'' ! k)" "\<not> isWhiteSpace (''0123456789'' ! k)"
    "''0123456789'' ! k \<noteq> CHR ''-''" "''0123456789'' ! k \<noteq> CHR ''+''"
    "''0123456789'' ! k \<noteq> CHR ''x''" "''0123456789'' ! k \<noteq> CHR ''X''"
    by (cases; simp add: isDigit_def digitOf_def isWhiteSpace_def)+
qed

lemma mathInt_snoc: "mathInt R (Z @ [c]) = (case digitOf R c of None \<Rightarrow> mathInt R Z | Some v \<Rightarrow> mathInt R Z * R + v)"
  by (simp add: mathInt_def split: option.splits)

lemma show_nat_digits: "list_all (isDigit 10) (show_nat n) \<and> show_nat n \<noteq> [] \<and> mathInt 10 (show_nat n) = n"
proof (induction n rule: show_nat.induct)
  case (1 n)
  show ?case
  proof (cases "n < 10")
    case True
    then show ?thesis
      by (simp add: show_nat.simps[of n] digit_char_props mathInt_def digit_char)
  next
    case False
    with 1 have IH: "list_all (isDigit 10) (show_nat (n div 10))" "mathInt 10 (show_nat (n div 10)) = n div 10"
      by simp_all
    have m: "n mod 10 < 10" by simp
    from False IH show ?thesis
      by (simp add: show_nat.simps[of n] digit_char_props[OF m] mathInt_snoc digit_char[OF m])
  qed
qed

lemma show_nat_hd: "\<exists>k cs. k < 10 \<and> show_nat n = (''0123456789'' ! k) # cs \<and> list_all (isDigit 10) cs"
proof (induction n rule: show_nat.induct)
  case (1 n)
  show ?case
  proof (cases "n < 10")
    case True
    then show ?thesis by (subst show_nat.simps) auto
  next
    case False
    with 1 obtain k cs where k: "k < 10" "show_nat (n div 10) = (''0123456789'' ! k) # cs" "list_all (isDigit 10) cs"
      by auto
    have m: "n mod 10 < 10" by simp
    from False k show ?thesis
      by (subst show_nat.simps) (auto simp: digit_char_props[OF m])
  qed
qed

lemma takeWhile_all: "list_all P xs \<Longrightarrow> takeWhile P xs = xs"
  by (induction xs) auto

lemma isDigit_not_x: "isDigit 10 c \<Longrightarrow> c \<noteq> CHR ''x'' \<and> c \<noteq> CHR ''X''"
  by (auto simp: isDigit_def digitOf_def)

lemma parseIntStr_show_nat: "parseIntStr (show_nat n) = Num (int n)"
proof -
  obtain k cs where k: "k < 10" "show_nat n = (''0123456789'' ! k) # cs" "list_all (isDigit 10) cs"
    using show_nat_hd by blast
  have nohex: "\<not> hasHexPrefix (show_nat n)"
    using k isDigit_not_x by (cases cs) (auto simp: hasHexPrefix_def)
  have all: "list_all (isDigit 10) (show_nat n)" "mathInt 10 (show_nat n) = n" "show_nat n \<noteq> []"
    using show_nat_digits by auto
  have ws: "dropWhile isWhiteSpace (show_nat n) = show_nat n"
    using k digit_char_props(2)[OF k(1)] by simp
  have sg: "stripSign (show_nat n) = show_nat n"
    using k digit_char_props(3,4)[OF k(1)] by (simp add: stripSign_def)
  have neg: "(case show_nat n of [] \<Rightarrow> False | c # _ \<Rightarrow> c = CHR ''-'') = False"
    using k digit_char_props(3)[OF k(1)] by simp
  show ?thesis
    unfolding parseIntStr_def Let_def ws sg neg using nohex all
    by (simp add: takeWhile_all)
qed

lemma parseIntStr_show_int: "parseIntStr (show_int i) = Num i"
proof (cases "i < 0")
  case False
  then show ?thesis by (simp add: show_int_def parseIntStr_show_nat)
next
  case True
  define n where "n = nat (- i)"
  obtain k cs where k: "k < 10" "show_nat n = (''0123456789'' ! k) # cs" "list_all (isDigit 10) cs"
    using show_nat_hd by blast
  have nohex: "\<not> hasHexPrefix (show_nat n)"
    using k isDigit_not_x by (cases cs) (auto simp: hasHexPrefix_def)
  have all: "list_all (isDigit 10) (show_nat n)" "mathInt 10 (show_nat n) = n" "show_nat n \<noteq> []"
    using show_nat_digits by auto
  have "parseIntStr (CHR ''-'' # show_nat n) = Num (- int n)"
    unfolding parseIntStr_def Let_def using nohex all
    by (simp add: isWhiteSpace_def stripSign_def takeWhile_all)
  with True show ?thesis by (simp add: show_int_def n_def)
qed

lemma parseInt_bigint: "parseInt (TextV (show_int i)) = Num i"
  by (simp add: parseInt_def toString_def parseIntStr_show_int)

section \<open>The count statements\<close>

lemma holdsAll_append: "holdsAll d env (xs @ ys) = (holdsAll d env xs \<and> holdsAll d env ys)"
  by (simp add: holdsAll_def)

lemma set_innerJoined:
  "set (innerJoined d uw hw tw) = {b. joins d b \<and> holdsAll d (baseCol d b) (uw @ hw @ tw)}"
  by (auto simp: innerJoined_def joins_def holdsAll_append split: if_splits)

lemma joins_article: "joins d b \<Longrightarrow> fst b \<in> set (Articles d)"
  by (auto simp: joins_def)

lemma leftJoin_nonempty: "leftJoin tbl on \<noteq> []"
  by (simp add: leftJoin_def split: list.splits)

lemma answersVotes_nonempty: "answersVotes d k \<noteq> []"
proof -
  obtain x xs where x: "leftJoin (ArticlesAnswers d) (\<lambda>x. k = an_article x) = x # xs"
    by (cases "leftJoin (ArticlesAnswers d) (\<lambda>x. k = an_article x)") (simp_all add: leftJoin_nonempty)
  obtain y ys where y: "leftJoin (ArticlesVotes d) (\<lambda>x. k = v_article x) = y # ys"
    by (cases "leftJoin (ArticlesVotes d) (\<lambda>x. k = v_article x)") (simp_all add: leftJoin_nonempty)
  show ?thesis by (simp add: answersVotes_def x y)
qed

lemma set_groupBy:
  "set (groupBy key xs) = {(k, g). k \<in> key ` set xs \<and> g = filter (\<lambda>x. key x = k) xs}"
  by (auto simp: groupBy_def)

lemma article_group:
  "distinct (map a_id as) \<Longrightarrow> a0 \<in> set as \<Longrightarrow>
     filter (\<lambda>j. a_id (fst j) = a_id a0) [(a, av). a \<leftarrow> as, av \<leftarrow> f (a_id a)] =
       map (Pair a0) (f (a_id a0))"
proof (induction as)
  case Nil
  then show ?case by simp
next
  case (Cons a as)
  show ?case
  proof (cases "a = a0")
    case True
    with Cons.prems(1) have "\<forall>x \<in> set as. a_id x \<noteq> a_id a0" by (auto simp: image_iff)
    then have "filter (\<lambda>j. a_id (fst j) = a_id a0) [(a, av). a \<leftarrow> as, av \<leftarrow> f (a_id a)] = []"
      by (auto simp: filter_empty_conv)
    with True show ?thesis by (simp add: filter_map o_def)
  next
    case False
    with Cons.prems have in_as: "a0 \<in> set as" and ne: "a_id a \<noteq> a_id a0" by (auto simp: image_iff)
    from Cons.prems(1) have "distinct (map a_id as)" by simp
    from Cons.IH[OF this in_as] ne show ?thesis by (simp add: filter_map o_def)
  qed
qed

lemma having_env:
  "holdsAll d (aggregateCol g env) (Articles_having l) = holdsAll d (aggregateCol g env') (Articles_having l)"
  by (simp add: Articles_having_def pushIf_def holdsAll_def holds_def aggregateCol_def split: option.splits)

lemma mem_pairs_filter:
  "k \<in> set [k. (k, g) \<leftarrow> ys, P g] \<longleftrightarrow> (\<exists>g. (k, g) \<in> set ys \<and> P g)"
  by (induction ys) auto

lemma article_keys:
  "(\<lambda>j. a_id (fst j)) ` set [(a, av). a \<leftarrow> Articles d, av \<leftarrow> answersVotes d (a_id a)] =
     a_id ` set (Articles d)"
proof (intro set_eqI iffI)
  fix k assume "k \<in> (\<lambda>j. a_id (fst j)) ` set [(a, av). a \<leftarrow> Articles d, av \<leftarrow> answersVotes d (a_id a)]"
  then show "k \<in> a_id ` set (Articles d)" by auto
next
  fix k assume "k \<in> a_id ` set (Articles d)"
  then obtain a where a: "a \<in> set (Articles d)" "k = a_id a" by auto
  obtain av avs where "answersVotes d (a_id a) = av # avs"
    using answersVotes_nonempty[of d "a_id a"] by (cases "answersVotes d (a_id a)") auto
  then have "av \<in> set (answersVotes d (a_id a))" by simp
  with a(1) have "(a, av) \<in> set [(a, av). a \<leftarrow> Articles d, av \<leftarrow> answersVotes d (a_id a)]" by auto
  then have "a_id (fst (a, av)) \<in> (\<lambda>j. a_id (fst j)) ` set [(a, av). a \<leftarrow> Articles d, av \<leftarrow> answersVotes d (a_id a)]"
    by (rule imageI)
  with a(2) show "k \<in> (\<lambda>j. a_id (fst j)) ` set [(a, av). a \<leftarrow> Articles d, av \<leftarrow> answersVotes d (a_id a)]"
    by simp
qed

lemma mem_articlesAnswerVote:
  assumes "distinct (map a_id (Articles d))"
  shows "k \<in> set (articlesAnswerVote d (Articles_having l)) \<longleftrightarrow>
           k \<in> a_id ` set (Articles d) \<and>
           holdsAll d (aggregateCol (answersVotes d k) (\<lambda>c. Null)) (Articles_having l)"
proof -
  define xs where "xs = [(a, av). a \<leftarrow> Articles d, av \<leftarrow> answersVotes d (a_id a)]"
  define P where "P = (\<lambda>g :: (article \<times> articleAnswer option \<times> articleVote option) list.
      holdsAll d (aggregateCol (map snd g) (case g of [] \<Rightarrow> (\<lambda>c. Null) | j # _ \<Rightarrow> articleCol d (fst j)))
        (Articles_having l))"
  have grp: "map snd (filter (\<lambda>j. a_id (fst j) = k) xs) = answersVotes d k" if "k \<in> a_id ` set (Articles d)"
  proof -
    from that obtain a0 where a0: "a0 \<in> set (Articles d)" "k = a_id a0" by auto
    from article_group[OF assms a0(1), of "answersVotes d"] a0(2) show ?thesis
      by (simp add: o_def xs_def)
  qed
  have "k \<in> set (articlesAnswerVote d (Articles_having l)) \<longleftrightarrow>
          (\<exists>g. (k, g) \<in> set (groupBy (\<lambda>j. a_id (fst j)) xs) \<and> P g)"
    unfolding articlesAnswerVote_def xs_def[symmetric] P_def set_remdups by (rule mem_pairs_filter)
  also have "\<dots> \<longleftrightarrow> k \<in> a_id ` set (Articles d) \<and> P (filter (\<lambda>j. a_id (fst j) = k) xs)"
    unfolding set_groupBy using article_keys[of d] by (simp add: xs_def)
  also have "\<dots> \<longleftrightarrow> k \<in> a_id ` set (Articles d) \<and>
           holdsAll d (aggregateCol (answersVotes d k) (\<lambda>c. Null)) (Articles_having l)"
  proof (cases "k \<in> a_id ` set (Articles d)")
    case True
    have "P (filter (\<lambda>j. a_id (fst j) = k) xs) =
            holdsAll d (aggregateCol (answersVotes d k) (\<lambda>c. Null)) (Articles_having l)"
      unfolding P_def grp[OF True] by (rule having_env)
    with True show ?thesis by simp
  next
    case False
    then show ?thesis by simp
  qed
  finally show ?thesis .
qed

lemma mem_countedArticles:
  "k \<in> set (countedArticles d c) \<longleftrightarrow>
     (\<exists>b. b \<in> set (innerJoined d (c_userWhere c) (c_hubWhere c) (c_tagWhere c)) \<and>
          a_id (fst b) = k \<and> k \<in> set (articlesAnswerVote d (c_having c)) \<and>
          holdsAll d (baseCol d b) (c_where c))"
  unfolding countedArticles_def by (simp del: split_paired_Ex split_paired_All split: if_splits) blast

lemma set_countedArticles:
  assumes "distinct (map a_id (Articles d))"
  shows "set (countedArticles d
            \<lparr>c_userWhere = Articles_userWhere l, c_hubWhere = Articles_hubWhere l,
             c_tagWhere = Articles_tagWhere l, c_having = Articles_having l,
             c_where = Articles_where l\<rparr>) = countedRoots d l"
proof (intro set_eqI iffI)
  fix k
  assume "k \<in> set (countedArticles d
            \<lparr>c_userWhere = Articles_userWhere l, c_hubWhere = Articles_hubWhere l,
             c_tagWhere = Articles_tagWhere l, c_having = Articles_having l,
             c_where = Articles_where l\<rparr>)"
  then obtain b where b: "joins d b" "a_id (fst b) = k"
      "holdsAll d (baseCol d b) (Articles_userWhere l @ Articles_hubWhere l @ Articles_tagWhere l)"
      "holdsAll d (baseCol d b) (Articles_where l)"
      "k \<in> set (articlesAnswerVote d (Articles_having l))"
    unfolding mem_countedArticles set_innerJoined
    by (auto simp del: split_paired_Ex split_paired_All)
  from b(5) have "holdsAll d (aggregateCol (answersVotes d k) (\<lambda>c. Null)) (Articles_having l)"
    unfolding mem_articlesAnswerVote[OF assms] by simp
  with b(1-4) show "k \<in> countedRoots d l"
    unfolding countedRoots_def
    by (intro CollectI exI[of _ b]) (simp add: holdsAll_append)
next
  fix k
  assume "k \<in> countedRoots d l"
  then obtain b where b: "joins d b" "a_id (fst b) = k"
      "holdsAll d (baseCol d b) (Articles_userWhere l @ Articles_hubWhere l @ Articles_tagWhere l)"
      "holdsAll d (baseCol d b) (Articles_where l)"
      "holdsAll d (aggregateCol (answersVotes d k) (\<lambda>c. Null)) (Articles_having l)"
    unfolding countedRoots_def by (auto simp: holdsAll_append simp del: split_paired_Ex split_paired_All)
  from joins_article[OF b(1)] b(2) have "k \<in> a_id ` set (Articles d)" by auto
  with b(5) have "k \<in> set (articlesAnswerVote d (Articles_having l))"
    unfolding mem_articlesAnswerVote[OF assms] by simp
  with b(1-4) show "k \<in> set (countedArticles d
            \<lparr>c_userWhere = Articles_userWhere l, c_hubWhere = Articles_hubWhere l,
             c_tagWhere = Articles_tagWhere l, c_having = Articles_having l,
             c_where = Articles_where l\<rparr>)"
    unfolding mem_countedArticles set_innerJoined
    by (intro exI[of _ b]) simp
qed

lemma runArticlesTotal_roots:
  assumes "distinct (map a_id (Articles d))"
  shows "run d (Articles_totalStatement l) =
           Inr [[(''total'', TextV (show_int (int (card (countedRoots d l)))))]]"
  by (simp add: run_def Articles_totalStatement_def runArticlesTotal_def length_remdups_card_conv
      set_countedArticles[OF assms])


lemma Some_in_leftJoin: "Some x \<in> set (leftJoin tbl on) \<longleftrightarrow> x \<in> set tbl \<and> on x"
proof (cases "filter on tbl")
  case Nil
  then have "x \<in> set tbl \<Longrightarrow> \<not> on x" by (auto simp: filter_empty_conv)
  with Nil show ?thesis by (auto simp: leftJoin_def)
next
  case (Cons y ys)
  have "set (map Some (filter on tbl)) = Some ` {x \<in> set tbl. on x}" by auto
  with Cons have "set (leftJoin tbl on) = Some ` {x \<in> set tbl. on x}" by (simp add: leftJoin_def)
  then show ?thesis by auto
qed

lemma mem_joinedTags:
  "(t, m) \<in> set (joinedTags d wh) \<longleftrightarrow>
     t \<in> set (Tags d) \<and> holdsAll d (tagCol d t) wh \<and>
     m \<in> set (leftJoin [(at, a). at \<leftarrow> ArticlesTags d, a \<leftarrow> Articles d, a_id a = at_article at]
                (\<lambda>m. t_id t = at_tag (fst m)))"
  by (auto simp: joinedTags_def split: if_splits)

lemma tag_keys:
  "(\<lambda>j. t_id (fst j)) ` set (joinedTags d wh) = t_id ` {t \<in> set (Tags d). holdsAll d (tagCol d t) wh}"
proof (intro set_eqI iffI)
  fix k assume "k \<in> (\<lambda>j. t_id (fst j)) ` set (joinedTags d wh)"
  then obtain t m where "(t, m) \<in> set (joinedTags d wh)" "k = t_id t" by auto
  then show "k \<in> t_id ` {t \<in> set (Tags d). holdsAll d (tagCol d t) wh}"
    unfolding mem_joinedTags by auto
next
  fix k assume "k \<in> t_id ` {t \<in> set (Tags d). holdsAll d (tagCol d t) wh}"
  then obtain t where t: "t \<in> set (Tags d)" "holdsAll d (tagCol d t) wh" "k = t_id t" by auto
  obtain m where "m \<in> set (leftJoin [(at, a). at \<leftarrow> ArticlesTags d, a \<leftarrow> Articles d, a_id a = at_article at]
                (\<lambda>m. t_id t = at_tag (fst m)))"
    using leftJoin_nonempty[of "[(at, a). at \<leftarrow> ArticlesTags d, a \<leftarrow> Articles d, a_id a = at_article at]"
        "\<lambda>m. t_id t = at_tag (fst m)"]
    by (meson last_in_set)
  with t have "(t, m) \<in> set (joinedTags d wh)" unfolding mem_joinedTags by simp
  then have "t_id (fst (t, m)) \<in> (\<lambda>j. t_id (fst j)) ` set (joinedTags d wh)" by (rule imageI)
  with t(3) show "k \<in> (\<lambda>j. t_id (fst j)) ` set (joinedTags d wh)" by simp
qed

lemma countArticles_group:
  assumes t: "t \<in> set (Tags d)" "holdsAll d (tagCol d t) wh"
  shows "countArticles (filter (\<lambda>j. t_id (fst j) = t_id t) (joinedTags d wh)) =
           int (card (articlesOfTag d (t_id t)))"
proof -
  let ?g = "filter (\<lambda>j. t_id (fst j) = t_id t) (joinedTags d wh)"
  have "set [a_id (snd m). (t', Some m) \<leftarrow> ?g] = articlesOfTag d (t_id t)"
  proof (intro set_eqI iffI)
    fix x assume "x \<in> set [a_id (snd m). (t', Some m) \<leftarrow> ?g]"
    then obtain t' m where m: "(t', Some m) \<in> set ?g" "x = a_id (snd m)"
      by (auto split: option.splits)
    then have "t_id t' = t_id t" "(t', Some m) \<in> set (joinedTags d wh)" by auto
    then have "m \<in> set [(at, a). at \<leftarrow> ArticlesTags d, a \<leftarrow> Articles d, a_id a = at_article at]"
        "t_id t = at_tag (fst m)"
      unfolding mem_joinedTags Some_in_leftJoin by auto
    then obtain at a where ata: "m = (at, a)" "at \<in> set (ArticlesTags d)" "a \<in> set (Articles d)"
        "a_id a = at_article at" "t_id t = at_tag at"
      by (auto split: if_splits)
    with m(2) show "x \<in> articlesOfTag d (t_id t)"
      unfolding articlesOfTag_def by (intro CollectI exI[of _ a] exI[of _ at]) simp
  next
    fix x assume "x \<in> articlesOfTag d (t_id t)"
    then obtain a at where a: "at \<in> set (ArticlesTags d)" "a \<in> set (Articles d)"
        "at_tag at = t_id t" "at_article at = a_id a" "x = a_id a"
      by (auto simp: articlesOfTag_def)
    then have "(at, a) \<in> set [(at, a). at \<leftarrow> ArticlesTags d, a \<leftarrow> Articles d, a_id a = at_article at]"
      by auto
    with a(3) t have "(t, Some (at, a)) \<in> set (joinedTags d wh)"
      unfolding mem_joinedTags Some_in_leftJoin by simp
    then have "(t, Some (at, a)) \<in> set ?g" by simp
    then have "a_id (snd (at, a)) \<in> set [a_id (snd m). (t', Some m) \<leftarrow> ?g]"
      by (force split: option.splits)
    with a(5) show "x \<in> set [a_id (snd m). (t', Some m) \<leftarrow> ?g]" by simp
  qed
  then show ?thesis
    by (simp add: countArticles_def length_remdups_card_conv)
qed

lemma tag_having_env:
  "env T_articles = env' T_articles \<Longrightarrow> holdsAll d env (Tags_having l) = holdsAll d env' (Tags_having l)"
  by (simp add: Tags_having_def pushIf_def holdsAll_def holds_def split: option.splits filterSpec.splits)

lemma set_tagGroups:
  "fst ` set (tagGroups d (Tags_where l) (Tags_having l)) = tagRoots d l"
proof (intro set_eqI iffI)
  fix k assume "k \<in> fst ` set (tagGroups d (Tags_where l) (Tags_having l))"
  then obtain g where g: "(k, g) \<in> set (groupBy (\<lambda>j. t_id (fst j)) (joinedTags d (Tags_where l)))"
      "holdsAll d (tagGroupCol d g) (Tags_having l)"
    by (auto simp: tagGroups_def split: if_splits)
  then have gk: "g = filter (\<lambda>j. t_id (fst j) = k) (joinedTags d (Tags_where l))"
    and "k \<in> (\<lambda>j. t_id (fst j)) ` set (joinedTags d (Tags_where l))"
    unfolding set_groupBy by auto
  then obtain t where t: "t \<in> set (Tags d)" "holdsAll d (tagCol d t) (Tags_where l)" "k = t_id t"
    unfolding tag_keys by auto
  have "tagGroupCol d g T_articles = IntV (int (card (articlesOfTag d k)))"
    using countArticles_group[OF t(1,2)] gk t(3) by (simp add: tagGroupCol_def)
  from tag_having_env[of "tagGroupCol d g" "\<lambda>c. IntV (int (card (articlesOfTag d k)))" d l, OF this] g(2)
  have "holdsAll d (\<lambda>c. IntV (int (card (articlesOfTag d k)))) (Tags_having l)" by simp
  with t show "k \<in> tagRoots d l" by (auto simp: tagRoots_def)
next
  fix k assume "k \<in> tagRoots d l"
  then obtain t where t: "t \<in> set (Tags d)" "holdsAll d (tagCol d t) (Tags_where l)" "k = t_id t"
    and h: "holdsAll d (\<lambda>c. IntV (int (card (articlesOfTag d k)))) (Tags_having l)"
    by (auto simp: tagRoots_def)
  define g where "g = filter (\<lambda>j. t_id (fst j) = k) (joinedTags d (Tags_where l))"
  have key: "k \<in> (\<lambda>j. t_id (fst j)) ` set (joinedTags d (Tags_where l))"
    unfolding tag_keys using t by auto
  have "tagGroupCol d g T_articles = IntV (int (card (articlesOfTag d k)))"
    using countArticles_group[OF t(1,2)] g_def t(3) by (simp add: tagGroupCol_def)
  from tag_having_env[of "tagGroupCol d g" "\<lambda>c. IntV (int (card (articlesOfTag d k)))" d l, OF this] h
  have "holdsAll d (tagGroupCol d g) (Tags_having l)" by simp
  with key have "(k, g) \<in> set (tagGroups d (Tags_where l) (Tags_having l))"
    by (auto simp: tagGroups_def set_groupBy g_def)
  then have "fst (k, g) \<in> fst ` set (tagGroups d (Tags_where l) (Tags_having l))" by (rule imageI)
  then show "k \<in> fst ` set (tagGroups d (Tags_where l) (Tags_having l))" by simp
qed

lemma runTagsTotal_roots:
  "run d (Tags_totalStatement l) = Inr [[(''total'', TextV (show_int (int (card (tagRoots d l)))))]]"
  by (simp add: run_def Tags_totalStatement_def runTagsTotal_def length_remdups_card_conv
      set_tagGroups)

lemma roots_limit_offset:
  "countedRoots d (l\<lparr>limit := x, offset := y\<rparr>) = countedRoots d l"
  "tagRoots d (t\<lparr>limit := x, offset := y\<rparr>) = tagRoots d t"
  by (simp_all add: countedRoots_def tagRoots_def Articles_userWhere_def Articles_hubWhere_def
      Articles_tagWhere_def Articles_having_def Articles_where_def Tags_where_def Tags_having_def
      searchDescriptor_def searching_def tsQuery_def searchText_def)

lemma storageExec_page:
  "0 \<le> limit l \<Longrightarrow> 0 \<le> offset l \<Longrightarrow>
     storageExec n d (Articles_pageStatement l) =
       (Inr (take (nat (limit l)) (drop (nat (offset l))
               (orderBy d (Articles_order l)
                  (articleRows d
                     \<lparr>p_extended = extended l, p_rank = rankItem A_tsv l,
                      p_userWhere = Articles_userWhere l, p_hubWhere = Articles_hubWhere l,
                      p_tagWhere = Articles_tagWhere l, p_where = Articles_where l,
                      p_having = Articles_having l, p_order = Articles_order l,
                      p_offset = offset l, p_limit = limit l\<rparr>))), n), d)"
  by (simp add: storageExec_def run_def Articles_pageStatement_def runArticlesPage_def)

lemma storageExec_total:
  "distinct (map a_id (Articles d)) \<Longrightarrow>
     storageExec n d (Articles_totalStatement l) =
       (Inr ([[(''total'', TextV (show_int (int (card (countedRoots d l)))))]], n), d)"
  by (simp add: storageExec_def runArticlesTotal_roots)

lemma storageExec_tags_page:
  "0 \<le> limit l \<Longrightarrow> 0 \<le> offset l \<Longrightarrow>
     \<exists>rows. storageExec n d (Tags_pageStatement l) = (Inr (rows, n), d)"
  by (simp add: storageExec_def run_def Tags_pageStatement_def runTagsPage_def)

lemma storageExec_tags_total:
  "storageExec n d (Tags_totalStatement l) =
       (Inr ([[(''total'', TextV (show_int (int (card (tagRoots d l)))))]], n), d)"
  by (simp add: storageExec_def runTagsTotal_roots)

lemma totalOf_count:
  "totalRaw l = [[(''total'', TextV (show_int i))]] \<Longrightarrow> totalOf l = Num i"
  by (simp add: totalOf_def getv_def parseInt_bigint)

text \<open>
  The aggregates of the count statement against those of the tables. The answer count
  is taken over distinct ids and is the true one, so a list without a filter on votes
  counts its root articles.
\<close>

lemma answer_ids:
  "set [an_id x. (Some x, v) \<leftarrow> answersVotes d k] =
     an_id ` {x \<in> set (ArticlesAnswers d). an_article x = k}"
proof (intro set_eqI iffI)
  fix i assume "i \<in> set [an_id x. (Some x, v) \<leftarrow> answersVotes d k]"
  then obtain x v where xv: "(Some x, v) \<in> set (answersVotes d k)" "i = an_id x"
    by (auto split: option.splits)
  then have "Some x \<in> set (leftJoin (ArticlesAnswers d) (\<lambda>x. k = an_article x))"
    by (auto simp: answersVotes_def)
  then have "x \<in> set (ArticlesAnswers d)" "an_article x = k"
    unfolding Some_in_leftJoin by auto
  with xv(2) show "i \<in> an_id ` {x \<in> set (ArticlesAnswers d). an_article x = k}" by auto
next
  fix i assume "i \<in> an_id ` {x \<in> set (ArticlesAnswers d). an_article x = k}"
  then obtain x where x: "x \<in> set (ArticlesAnswers d)" "an_article x = k" "i = an_id x" by auto
  then have sx: "Some x \<in> set (leftJoin (ArticlesAnswers d) (\<lambda>x. k = an_article x))"
    unfolding Some_in_leftJoin by simp
  obtain v vs where "leftJoin (ArticlesVotes d) (\<lambda>x. k = v_article x) = v # vs"
    by (cases "leftJoin (ArticlesVotes d) (\<lambda>x. k = v_article x)") (simp_all add: leftJoin_nonempty)
  then have "v \<in> set (leftJoin (ArticlesVotes d) (\<lambda>x. k = v_article x))" by simp
  with sx have "(Some x, v) \<in> set (answersVotes d k)" by (auto simp: answersVotes_def)
  then have "an_id x \<in> set [an_id x. (Some x, v) \<leftarrow> answersVotes d k]"
    by (force split: option.splits)
  with x(3) show "i \<in> set [an_id x. (Some x, v) \<leftarrow> answersVotes d k]" by simp
qed

lemma countAnswers_true: "countAnswers (answersVotes d k) = answerCount d k"
proof -
  have "length (remdups [an_id x. (Some x, v) \<leftarrow> answersVotes d k]) =
      card (set [an_id x. (Some x, v) \<leftarrow> answersVotes d k])"
    by (rule length_remdups_card_conv)
  also have "\<dots> = card (an_id ` {x \<in> set (ArticlesAnswers d). an_article x = k})"
    by (simp only: answer_ids)
  finally show ?thesis by (simp only: countAnswers_def answerCount_def)
qed

lemma having_without_votes:
  "f_votes (filters l) = None \<Longrightarrow>
     holdsAll d (aggregateCol (answersVotes d k) env) (Articles_having l) =
       holdsAll d (trueAggregates d k) (Articles_having l)"
  by (simp add: Articles_having_def pushIf_def holdsAll_def holds_def aggregateCol_def
      trueAggregates_def countAnswers_true split: option.splits filterSpec.splits)

lemma counted_is_root:
  "f_votes (filters l) = None \<Longrightarrow> countedRoots d l = articleRoots d l"
  by (simp add: countedRoots_def articleRoots_def having_without_votes)

lemma articleRoots_limit_offset:
  "articleRoots d (l\<lparr>limit := x, offset := y\<rparr>) = articleRoots d l"
  by (simp add: articleRoots_def Articles_userWhere_def Articles_hubWhere_def
      Articles_tagWhere_def Articles_having_def Articles_where_def
      searchDescriptor_def searching_def tsQuery_def searchText_def)

text \<open>
  Where the count statement is right. With unique article ids and no filter on votes,
  \<open>setData\<close> completes for every limit and offset the page statement accepts, and
  \<open>total\<close> is the number of root articles.
\<close>

lemma Articles_total_without_votes_filter:
  assumes pk: "distinct (map a_id (Articles d))" and lim: "0 \<le> lim" and off: "0 \<le> off"
    and nv: "f_votes (filters a) = None"
  shows "case Articles_setData (storageExec n) (a\<lparr>limit := lim, offset := off\<rparr>) d of (r, l', d') \<Rightarrow>
        r = Inr True \<and>
        totalRaw l' = [[(''total'', TextV (show_int (int (card (articleRoots d a)))))]] \<and>
        totalOf l' = Num (int (card (articleRoots d a)))"
proof -
  define a' where "a' = a\<lparr>limit := lim, offset := off\<rparr>"
  have la: "0 \<le> limit a'" "0 \<le> offset a'" using lim off by (simp_all add: a'_def)
  have nv': "f_votes (filters a') = None" using nv by (simp add: a'_def)
  from storageExec_page[OF la, of n d] obtain rows where
    p: "storageExec n d (Articles_pageStatement a') = (Inr (rows, n), d)" by blast
  note c = storageExec_total[OF pk, of n a']
  have "countedRoots d a' = articleRoots d a'" by (rule counted_is_root[OF nv'])
  also have "\<dots> = articleRoots d a" unfolding a'_def by (rule articleRoots_limit_offset)
  finally have r: "countedRoots d a' = articleRoots d a" .
  show ?thesis
    unfolding a'_def[symmetric] Articles_setData_succeeds[of "storageExec n" d a', OF p c]
    by (simp add: totalOf_count r)
qed

text \<open>The same for Tags, whatever the filters.\<close>

lemma Tags_total_counts_roots:
  assumes lim: "0 \<le> lim" and off: "0 \<le> off"
  shows "case Tags_setData (storageExec n) (t\<lparr>limit := lim, offset := off\<rparr>) d of (r, l', d') \<Rightarrow>
        r = Inr () \<and>
        totalRaw l' = [[(''total'', TextV (show_int (int (card (tagRoots d t)))))]] \<and>
        totalOf l' = Num (int (card (tagRoots d t)))"
proof -
  define t' where "t' = t\<lparr>limit := lim, offset := off\<rparr>"
  have lt: "0 \<le> limit t'" "0 \<le> offset t'" using lim off by (simp_all add: t'_def)
  from storageExec_tags_page[OF lt, of n d] obtain trows where
    tp: "storageExec n d (Tags_pageStatement t') = (Inr (trows, n), d)" by blast
  note tc = storageExec_tags_total[of n d t']
  show ?thesis
    unfolding t'_def[symmetric] Tags_setData_succeeds[of "storageExec n" d t', OF tp tc]
    by (simp add: totalOf_count t'_def roots_limit_offset)
qed

lemma votesStorage_joins:
  "joins votesStorage b \<longleftrightarrow>
     b = (\<lparr>a_id = 1, a_title = ''On primes'', a_abstract = ''x'', a_author = 1, a_tsv = Null,
            a_createdAt = 100\<rparr>,
          \<lparr>u_id = 1, u_email = ''a@b.c'', u_displayName = ''ann'', u_hash = ''h''\<rparr>,
          \<lparr>ah_id = 1, ah_article = 1, ah_hub = 3\<rparr>,
          \<lparr>h_id = 3, h_name = ''algebra''\<rparr>,
          \<lparr>at_id = 1, at_article = 1, at_tag = 7\<rparr>,
          \<lparr>t_id = 7, t_name = ''rsa'', t_hub = 3, t_tsv = Null\<rparr>)"
  by (cases b) (auto simp: joins_def votesStorage_def oneArticleStorage_def emptyStorage_def)

lemma votesStorage_voteSum: "voteSum votesStorage k = (if k = 1 then 5 else 0)"
  by (simp add: voteSum_def votesStorage_def oneArticleStorage_def emptyStorage_def)

lemma votes_filters:
  "Articles_userWhere votesEq5Articles = []" "Articles_hubWhere votesEq5Articles = []"
  "Articles_tagWhere votesEq5Articles = []" "Articles_where votesEq5Articles = []"
  "Articles_having votesEq5Articles = [(A_votes, numericFilter OpEq 5)]"
  "Articles_userWhere votesGe6Articles = []" "Articles_hubWhere votesGe6Articles = []"
  "Articles_tagWhere votesGe6Articles = []" "Articles_where votesGe6Articles = []"
  "Articles_having votesGe6Articles = [(A_votes, numericFilter OpGe 6)]"
  by (simp_all add: votesEq5Articles_def votesGe6Articles_def plainArticles_def noArticleFilters_def
      Articles_userWhere_def Articles_hubWhere_def Articles_tagWhere_def Articles_where_def
      Articles_having_def pushIf_def searchDescriptor_def searching_def)

lemma votesStorage_roots:
  "articleRoots votesStorage votesEq5Articles = {1}"
  "articleRoots votesStorage votesGe6Articles = {}"
  by (auto simp: articleRoots_def votesStorage_joins votes_filters holdsAll_def holds_def
      numericFilter_def trueAggregates_def votesStorage_voteSum
      simp del: split_paired_Ex split_paired_All)

text \<open>
  C4, at a storage where it fails. The one article of \<open>votesStorage\<close> has two answers and
  one vote of value 5, so its vote sum is 5. Listed with the filter \<open>votes = 5\<close> it is the
  one root article, and \<open>setData\<close> completes with \<open>total = 0\<close>; listed with \<open>votes >= 6\<close>
  there is no root article, and \<open>setData\<close> completes with \<open>total = 1\<close>. The \<open>HAVING\<close> of the
  count statement compares the sum over the rows pairing every answer with every vote,
  which is 10. Without a filter on votes, and for Tags, the count is right (the two
  lemmas above).
\<close>

theorem total_counts_by_inflated_votes:
  "voteSum votesStorage 1 = 5 \<and>
   articleRoots votesStorage votesEq5Articles = {1} \<and>
   fst (Articles_setData (storageExec 1) votesEq5Articles votesStorage) = Inr True \<and>
   totalOf (fst (snd (Articles_setData (storageExec 1) votesEq5Articles votesStorage))) = Num 0 \<and>
   articleRoots votesStorage votesGe6Articles = {} \<and>
   fst (Articles_setData (storageExec 1) votesGe6Articles votesStorage) = Inr True \<and>
   totalOf (fst (snd (Articles_setData (storageExec 1) votesGe6Articles votesStorage))) = Num 1"
proof -
  have a: "fst (Articles_setData (storageExec 1) votesEq5Articles votesStorage) = Inr True"
    by code_simp
  have b: "totalOf (fst (snd (Articles_setData (storageExec 1) votesEq5Articles votesStorage))) = Num 0"
    by code_simp
  have c: "fst (Articles_setData (storageExec 1) votesGe6Articles votesStorage) = Inr True"
    by code_simp
  have e: "totalOf (fst (snd (Articles_setData (storageExec 1) votesGe6Articles votesStorage))) = Num 1"
    by code_simp
  from a b c e show ?thesis by (simp add: votesStorage_roots votesStorage_voteSum)
qed

section \<open>The page statement: join filters and aggregates\<close>

lemma page_rows_subset:
  assumes "ordersFaithfully d"
  shows "set (take n (drop m (orderBy d os rows))) \<subseteq> set rows"
proof -
  from assms have "mset (orderBy d os rows) = mset rows" by (simp add: ordersFaithfully_def)
  then have "set (orderBy d os rows) = set rows" by (rule mset_eq_setD)
  moreover have "set (take n (drop m (orderBy d os rows))) \<subseteq> set (orderBy d os rows)"
    using set_take_subset set_drop_subset by fast
  ultimately show ?thesis by simp
qed

lemma mem_joinedArticles:
  "j \<in> set (joinedArticles d p) \<Longrightarrow>
     fst j \<in> set (innerJoined d (p_userWhere p) (p_hubWhere p) (p_tagWhere p))"
  by (auto simp: joinedArticles_def split: if_splits)

lemma getv_articleRow:
  "getv (articleRow d p g) ''Hub.id'' = groupCol d g A_hub_id"
  "getv (articleRow d p g) ''Tag.id'' = groupCol d g A_tag_id"
  by (simp_all add: articleRow_def getv_def Let_def)

lemma groupCol_base:
  "groupCol d (j # g) A_hub_id = baseCol d (fst j) A_hub_id"
  "groupCol d (j # g) A_tag_id = baseCol d (fst j) A_tag_id"
  by (simp_all add: groupCol_def aggregateCol_def)

lemma articleRows_cols:
  assumes "r \<in> set (articleRows d p)"
  shows "\<exists>b. b \<in> set (innerJoined d (p_userWhere p) (p_hubWhere p) (p_tagWhere p)) \<and>
            getv r ''Hub.id'' = baseCol d b A_hub_id \<and> getv r ''Tag.id'' = baseCol d b A_tag_id"
proof -
  from assms obtain k g where kg: "(k, g) \<in> set (groupBy articleKey (joinedArticles d p))"
      and r: "r = articleRow d p g"
    by (auto simp: articleRows_def split: if_splits)
  from kg have g: "g = filter (\<lambda>x. articleKey x = k) (joinedArticles d p)"
    and k: "k \<in> articleKey ` set (joinedArticles d p)"
    unfolding set_groupBy by auto
  from k obtain j0 where "j0 \<in> set (joinedArticles d p)" "articleKey j0 = k" by auto
  then have "j0 \<in> set g" unfolding g by simp
  then obtain j g' where jg: "g = j # g'" by (cases g) auto
  then have "j \<in> set g" by simp
  then have "j \<in> set (joinedArticles d p)" unfolding g by simp
  from mem_joinedArticles[OF this] r jg show ?thesis
    by (intro exI[of _ "fst j"]) (simp add: getv_articleRow groupCol_base)
qed

lemma hubWhere_holds:
  "f_hubs (filters l) = Some (Filter p) \<Longrightarrow> holdsAll d env (Articles_hubWhere l) = p (env A_hub_id)"
  "f_tags (filters l) = Some (Filter q) \<Longrightarrow> holdsAll d env (Articles_tagWhere l) = q (env A_tag_id)"
  by (simp_all add: Articles_hubWhere_def Articles_tagWhere_def pushIf_def holdsAll_def holds_def)

lemma hub_id_from_row:
  assumes "e \<in> set (Articles_set_data ext rows)" "h \<in> set (art_hubs e)"
  shows "\<exists>r \<in> set rows. hub_id h = getv r ''Hub.id''"
proof -
  from assms(2) have "hub_id h \<in> set (map hub_id (art_hubs e))" by simp
  then have "hub_id h \<in> set (map (\<lambda>r. getv r ''Hub.id'') (rowsOf (art_id e) rows))"
    unfolding hub_ids_set_data[OF assms(1)] set_first_seen .
  then show ?thesis by (auto simp: rowsOf_def)
qed

lemma tag_id_from_row:
  assumes "e \<in> set (Articles_set_data ext rows)" "t \<in> set (art_tags e)"
  shows "\<exists>r \<in> set rows. tag_id t = getv r ''Tag.id''"
proof -
  from assms(2) have "tag_id t \<in> set (map tag_id (art_tags e))" by simp
  then have "tag_id t \<in> set (map (\<lambda>r. getv r ''Tag.id'') (rowsOf (art_id e) rows))"
    unfolding tag_ids_set_data[OF assms(1)] set_first_seen .
  then show ?thesis by (auto simp: rowsOf_def)
qed

text \<open>
  C2 as stated fails: the hubs filter is appended to the \<open>ON\<close> condition of the inner
  join with the hubs, so it removes the joined rows of every other hub. The article
  of \<open>hubsStorage\<close> is in hubs 3 and 5; listed with \<open>hubs = [3]\<close> it appears once, and its
  \<open>hubs\<close> collection holds hub 3 only.
\<close>

theorem hubs_filter_drops_other_hubs:
  "map ah_hub (filter (\<lambda>x. ah_article x = 1) (ArticlesHubs hubsStorage)) = [3, 5] \<and>
   map (\<lambda>e. (art_id e, map hub_id (art_hubs e)))
     (dataProxy (fst (snd (Articles_setData (storageExec 1) hubs3Articles hubsStorage)))) =
     [(IntV 1, [IntV 3])]"
  by code_simp

text \<open>
  C2, amended. When the page statement is accepted, \<open>setData\<close> completes, no article is
  in \<open>data\<close> twice, and a filter on hubs (on tags) holds of every element of every
  \<open>hubs\<close> (\<open>tags\<close>) collection in \<open>data\<close>: the filter restricts the nested collection
  along with the articles that qualify.
\<close>

theorem join_filter_restricts_collection:
  "ordersFaithfully d \<and> 0 \<le> limit l \<and> 0 \<le> offset l \<longrightarrow>
     (case Articles_setData (storageExec n) l d of (r, l', d') \<Rightarrow>
        r = Inr True \<and> distinct (map art_id (dataProxy l')) \<and>
        (\<forall>p. f_hubs (filters l) = Some (Filter p) \<longrightarrow>
           (\<forall>e \<in> set (dataProxy l'). \<forall>h \<in> set (art_hubs e). p (hub_id h))) \<and>
        (\<forall>q. f_tags (filters l) = Some (Filter q) \<longrightarrow>
           (\<forall>e \<in> set (dataProxy l'). \<forall>t \<in> set (art_tags e). q (tag_id t))))"
proof (intro impI, elim conjE)
  assume ord: "ordersFaithfully d" and lim: "0 \<le> limit l" and off: "0 \<le> offset l"
  define pg where "pg = \<lparr>p_extended = extended l, p_rank = rankItem A_tsv l,
                      p_userWhere = Articles_userWhere l, p_hubWhere = Articles_hubWhere l,
                      p_tagWhere = Articles_tagWhere l, p_where = Articles_where l,
                      p_having = Articles_having l, p_order = Articles_order l,
                      p_offset = offset l, p_limit = limit l\<rparr>"
  define rows where "rows = take (nat (limit l)) (drop (nat (offset l))
               (orderBy d (Articles_order l) (articleRows d pg)))"
  have sub: "set rows \<subseteq> set (articleRows d pg)"
    unfolding rows_def by (rule page_rows_subset[OF ord])
  have p: "storageExec n d (Articles_pageStatement l) = (Inr (rows, n), d)"
    using storageExec_page[OF lim off, of n d] by (simp add: rows_def pg_def)
  obtain raw where c: "storageExec n d (Articles_totalStatement l) = (Inr (raw, n), d)"
    by (simp add: storageExec_def run_def Articles_totalStatement_def runArticlesTotal_def)
  have hubs: "p (hub_id h)"
    if "f_hubs (filters l) = Some (Filter p)" "e \<in> set (Articles_set_data (extended l) rows)"
      "h \<in> set (art_hubs e)" for p e h
  proof -
    from hub_id_from_row[OF that(2,3)] obtain r where r: "r \<in> set rows" "hub_id h = getv r ''Hub.id''"
      by blast
    with sub have "r \<in> set (articleRows d pg)" by blast
    from articleRows_cols[OF this] obtain b where
      b: "b \<in> set (innerJoined d (Articles_userWhere l) (Articles_hubWhere l) (Articles_tagWhere l))"
        "getv r ''Hub.id'' = baseCol d b A_hub_id"
      by (auto simp: pg_def)
    from b(1) have "holdsAll d (baseCol d b) (Articles_hubWhere l)"
      unfolding set_innerJoined by (simp add: holdsAll_append)
    with that(1) r(2) b(2) show ?thesis by (simp add: hubWhere_holds)
  qed
  have tags: "q (tag_id t)"
    if "f_tags (filters l) = Some (Filter q)" "e \<in> set (Articles_set_data (extended l) rows)"
      "t \<in> set (art_tags e)" for q e t
  proof -
    from tag_id_from_row[OF that(2,3)] obtain r where r: "r \<in> set rows" "tag_id t = getv r ''Tag.id''"
      by blast
    with sub have "r \<in> set (articleRows d pg)" by blast
    from articleRows_cols[OF this] obtain b where
      b: "b \<in> set (innerJoined d (Articles_userWhere l) (Articles_hubWhere l) (Articles_tagWhere l))"
        "getv r ''Tag.id'' = baseCol d b A_tag_id"
      by (auto simp: pg_def)
    from b(1) have "holdsAll d (baseCol d b) (Articles_tagWhere l)"
      unfolding set_innerJoined by (simp add: holdsAll_append)
    with that(1) r(2) b(2) show ?thesis by (simp add: hubWhere_holds)
  qed
  show "case Articles_setData (storageExec n) l d of (r, l', d') \<Rightarrow>
        r = Inr True \<and> distinct (map art_id (dataProxy l')) \<and>
        (\<forall>p. f_hubs (filters l) = Some (Filter p) \<longrightarrow>
           (\<forall>e \<in> set (dataProxy l'). \<forall>h \<in> set (art_hubs e). p (hub_id h))) \<and>
        (\<forall>q. f_tags (filters l) = Some (Filter q) \<longrightarrow>
           (\<forall>e \<in> set (dataProxy l'). \<forall>t \<in> set (art_tags e). q (tag_id t)))"
  proof -
    have H: "\<forall>p. f_hubs (filters l) = Some (Filter p) \<longrightarrow>
           (\<forall>e \<in> set (Articles_set_data (extended l) rows). \<forall>h \<in> set (art_hubs e). p (hub_id h))"
      using hubs by blast
    have T: "\<forall>q. f_tags (filters l) = Some (Filter q) \<longrightarrow>
           (\<forall>e \<in> set (Articles_set_data (extended l) rows). \<forall>t \<in> set (art_tags e). q (tag_id t))"
      using tags by blast
    show ?thesis
      unfolding Articles_setData_succeeds[of "storageExec n" d l, OF p c]
      using H T by (simp add: distinct_ids)
  qed
qed

lemma sample_orders: "ordersFaithfully hubsStorage"
  by (simp add: ordersFaithfully_def hubsStorage_def oneArticleStorage_def emptyStorage_def)

theorem join_filter_restricts_collection_witness:
  "ordersFaithfully hubsStorage \<and> (0::int) \<le> limit hubs3Articles \<and> 0 \<le> offset hubs3Articles \<and>
   f_hubs (filters hubs3Articles) = Some (idsFilter [3]) \<and>
   fst (Articles_setData (storageExec 1) hubs3Articles hubsStorage) = Inr True \<and>
   map (\<lambda>e. map hub_id (art_hubs e))
     (dataProxy (fst (snd (Articles_setData (storageExec 1) hubs3Articles hubsStorage)))) = [[IntV 3]] \<and>
   list_all (\<lambda>e. list_all (\<lambda>h. list_ex (\<lambda>i. hub_id h = IntV i) [3]) (art_hubs e))
     (dataProxy (fst (snd (Articles_setData (storageExec 1) hubs3Articles hubsStorage))))"
proof -
  have l: "(0::int) \<le> limit hubs3Articles" "0 \<le> offset hubs3Articles"
    by (simp_all add: hubs3Articles_def plainArticles_def)
  have f: "f_hubs (filters hubs3Articles) = Some (Filter (\<lambda>v. list_ex (\<lambda>i. v = IntV i) [3]))"
    by (simp add: hubs3Articles_def idsFilter_def)
  have v: "map (\<lambda>e. map hub_id (art_hubs e))
     (dataProxy (fst (snd (Articles_setData (storageExec 1) hubs3Articles hubsStorage)))) = [[IntV 3]]"
    by code_simp
  note t = join_filter_restricts_collection[where d = hubsStorage and l = hubs3Articles and n = 1]
  from t sample_orders l f
  have "fst (Articles_setData (storageExec 1) hubs3Articles hubsStorage) = Inr True \<and>
    (\<forall>e \<in> set (dataProxy (fst (snd (Articles_setData (storageExec 1) hubs3Articles hubsStorage)))).
       \<forall>h \<in> set (art_hubs e). list_ex (\<lambda>i. hub_id h = IntV i) [3])"
    by (auto simp: split_beta)
  with sample_orders l f v show ?thesis by (simp add: list_all_iff idsFilter_def)
qed

text \<open>
  C1, at a storage where it fails. The one article of \<open>votesStorage\<close> has two answers and
  one vote of value 5. The page statement sums \<open>vote\<close> over the rows of the group, which
  pair every answer with every vote, so the vote is added once per answer: the object
  carries \<open>votes = 10\<close>, while \<open>answers = 2\<close> is right.
\<close>

theorem votes_summed_once_per_answer:
  "sum_list (map v_vote (filter (\<lambda>x. v_article x = 1) (ArticlesVotes votesStorage))) = 5 \<and>
   map an_id (filter (\<lambda>x. an_article x = 1) (ArticlesAnswers votesStorage)) = [1, 2] \<and>
   map (\<lambda>e. (art_id e, art_answers e, art_votes e))
     (dataProxy (fst (snd (Articles_setData (storageExec 1) plainArticles votesStorage)))) =
     [(IntV 1, Num 2, Num 10)]"
  by code_simp

end
